theory Spec2Isabelle
  imports Complex_Main "HOL-Library.Multiset" "HOL-Library.Signed_Division"
begin

section \<open>Device memory and the Thrust primitives\<close>

text \<open>
  Both generations of the library (\<^verbatim>\<open>gpu_src/my_gpu.h\<close>, generic templates, and
  \<^verbatim>\<open>MyThrust/my_gpu.h\<close>, macro-generated per type) work on \<^verbatim>\<open>device_ptr<T>\<close> values:
  a base address and pointer arithmetic on it. Device memory is an explicit store from
  element addresses to values, a pointer is an address, \<^verbatim>\<open>begin + k\<close> is integer
  addition, and two pointers alias exactly when they are equal.

  The element type \<^verbatim>\<open>T\<close> (\<^verbatim>\<open>float\<close> or \<^verbatim>\<open>double\<close>) is idealised as \<^typ>\<open>real\<close>:
  arithmetic within one floating-point type is exact, infinities and NaN are outside
  the model. The C \<^verbatim>\<open>int\<close> sizes and indices are \<^typ>\<open>int\<close>, with the truncating division
  of C; the \<^verbatim>\<open>int\<close> and \<^verbatim>\<open>unsigned int\<close> arithmetic that computes element offsets in the
  matrix functions is written with its 32-bit wrap-around.
\<close>

type_synonym addr = int
type_synonym device = "addr \<Rightarrow> real"

text \<open>
  Machine integers. \<open>u32\<close> is the value of an integer expression in \<^verbatim>\<open>unsigned int\<close> and
  \<open>i32\<close> its value in \<^verbatim>\<open>int\<close>, both with the 32-bit wrap-around of the hardware (C
  leaves signed overflow undefined).
\<close>

definition u32 :: "int \<Rightarrow> int" where
  "u32 v = v mod 4294967296"

definition i32 :: "int \<Rightarrow> int" where
  "i32 v = (v + 2147483648) mod 4294967296 - 2147483648"

text \<open>
  The conversion of a \<^verbatim>\<open>double\<close> to \<^verbatim>\<open>float\<close>, and the rounding of a single-precision
  result: IEEE 754 binary32, round to nearest, ties to even. A value has 24
  significant bits, its unit in the last place is \<open>2\<close> to the power of its binary
  exponent minus 23, and the exponent is at least \<open>-126\<close> (below that are the
  subnormal numbers, which share this unit). Values of magnitude \<open>2^128\<close> and more
  become infinities in C; they are outside the model. The conversion is written
  where the source changes the floating-point type or where a single-precision
  rounding is not small against the result; all other arithmetic is exact.
\<close>

definition round_even :: "real \<Rightarrow> int" where
  "round_even r =
     (let f = \<lfloor>r\<rfloor>
      in if r - of_int f < 1 / 2 then f
         else if 1 / 2 < r - of_int f then f + 1
         else if even f then f else f + 1)"

definition float_exp :: "real \<Rightarrow> int" where
  "float_exp x = max \<lfloor>log 2 \<bar>x\<bar>\<rfloor> (- 126)"

definition float_ulp :: "real \<Rightarrow> real" where
  "float_ulp x = 2 powr real_of_int (float_exp x - 23)"

definition float_of :: "real \<Rightarrow> real" where
  "float_of x = (if x = 0 then 0 else real_of_int (round_even (x / float_ulp x)) * float_ulp x)"

text \<open>
  The Thrust algorithms are library code. Each one is a loop over the index range of
  its input, in index order. \<^verbatim>\<open>transform(first, last, result, op)\<close> stores
  \<^verbatim>\<open>op(first[i])\<close> at \<^verbatim>\<open>result[i]\<close>; an empty or reversed range does nothing.
\<close>

definition transform :: "addr \<Rightarrow> addr \<Rightarrow> addr \<Rightarrow> (real \<Rightarrow> real) \<Rightarrow> device \<Rightarrow> device" where
  "transform first lst result op mem =
     fold (\<lambda>i m. m(result + int i := op (m (first + int i)))) [0..<nat (lst - first)] mem"

definition copy_n :: "addr \<Rightarrow> int \<Rightarrow> addr \<Rightarrow> device \<Rightarrow> device" where
  "copy_n first n result mem =
     fold (\<lambda>i m. m(result + int i := m (first + int i))) [0..<nat n] mem"

definition fill_n :: "addr \<Rightarrow> int \<Rightarrow> real \<Rightarrow> device \<Rightarrow> device" where
  "fill_n first n val mem = fold (\<lambda>i m. m(first + int i := val)) [0..<nat n] mem"

text \<open>\<^verbatim>\<open>reduce(first, last, init, plus)\<close> and \<^verbatim>\<open>transform_reduce(first, last, op, init, plus)\<close>.\<close>

definition reduce_plus :: "addr \<Rightarrow> addr \<Rightarrow> real \<Rightarrow> device \<Rightarrow> real" where
  "reduce_plus first lst init mem =
     fold (\<lambda>i acc. acc + mem (first + int i)) [0..<nat (lst - first)] init"

definition transform_reduce_plus :: "addr \<Rightarrow> addr \<Rightarrow> (real \<Rightarrow> real) \<Rightarrow> real \<Rightarrow> device \<Rightarrow> real" where
  "transform_reduce_plus first lst op init mem =
     fold (\<lambda>i acc. acc + op (mem (first + int i))) [0..<nat (lst - first)] init"

text \<open>
  \<^verbatim>\<open>max_element(first, last)\<close> returns the position of the first largest element, and
  \<^verbatim>\<open>last\<close> (which is \<^verbatim>\<open>first\<close>) on an empty range.
\<close>

definition max_element :: "addr \<Rightarrow> addr \<Rightarrow> device \<Rightarrow> addr" where
  "max_element first lst mem =
     fold (\<lambda>i best. if mem best < mem (first + int i) then first + int i else best)
       [1..<nat (lst - first)] first"

text \<open>
  Where a claim is about the work a function does, the function is written as the list
  of Thrust calls it makes; running the list in order gives its effect on the memory.
\<close>

datatype thrust_call =
    Transform addr addr addr "real \<Rightarrow> real"
  | Copy_n addr int addr

fun exec_call :: "thrust_call \<Rightarrow> device \<Rightarrow> device" where
  "exec_call (Transform first lst result op) mem = transform first lst result op mem"
| "exec_call (Copy_n first n result) mem = copy_n first n result mem"

definition exec_calls :: "thrust_call list \<Rightarrow> device \<Rightarrow> device" where
  "exec_calls cs mem = fold exec_call cs mem"

section \<open>Affine-fused functors and their transforms (gpu\_src)\<close>

text \<open>
  A C++ default argument is an argument the caller may leave out: a constructor
  parameter with a default is an optional value, \<open>None\<close> when the caller omits it.
\<close>

definition dflt :: "real \<Rightarrow> real option \<Rightarrow> real" where
  "dflt d arg = (case arg of None \<Rightarrow> d | Some v \<Rightarrow> v)"

text \<open>
  \<^verbatim>\<open>GEN_linear_functor(name)\<close>: the struct \<^verbatim>\<open>functor_name\<close> with fields \<^verbatim>\<open>a, b, m\<close>, its
  constructor \<^verbatim>\<open>functor_name(T _a = 1, T _b = 0, T _m = 1)\<close> and its call operator
  \<^verbatim>\<open>m * name(a * x + b)\<close>. The elementary function \<^verbatim>\<open>name\<close> is the parameter \<open>name\<close>.
\<close>

record functor_name =
  fa :: real
  fb :: real
  fm :: real

definition functor_name_ctor :: "real option \<Rightarrow> real option \<Rightarrow> real option \<Rightarrow> functor_name" where
  "functor_name_ctor a' b' m' = \<lparr>fa = dflt 1 a', fb = dflt 0 b', fm = dflt 1 m'\<rparr>"

definition functor_name_call :: "(real \<Rightarrow> real) \<Rightarrow> functor_name \<Rightarrow> real \<Rightarrow> real" where
  "functor_name_call name F x = fm F * name (fa F * x + fb F)"

text \<open>
  \<^verbatim>\<open>GEN_transf(name)\<close>: \<^verbatim>\<open>gpu_name(begin, size, out, a, b, m)\<close> and the in-place overload
  \<^verbatim>\<open>gpu_name(begin, size, a, b, m)\<close>, which calls the first with \<^verbatim>\<open>out = begin\<close>. The
  defaults \<^verbatim>\<open>a = 1, b = 0, m = 1\<close> of these two functions are filled in at the call sites
  below.
\<close>

definition gpu_name :: "(real \<Rightarrow> real) \<Rightarrow> addr \<Rightarrow> int \<Rightarrow> addr \<Rightarrow> real \<Rightarrow> real \<Rightarrow> real \<Rightarrow> device \<Rightarrow> device" where
  "gpu_name name begin sz out a b m mem =
     transform begin (begin + sz) out
       (functor_name_call name (functor_name_ctor (Some a) (Some b) (Some m))) mem"

definition gpu_name_inplace :: "(real \<Rightarrow> real) \<Rightarrow> addr \<Rightarrow> int \<Rightarrow> real \<Rightarrow> real \<Rightarrow> real \<Rightarrow> device \<Rightarrow> device" where
  "gpu_name_inplace name begin sz a b m mem = gpu_name name begin sz begin a b m mem"

text \<open>
  \<^verbatim>\<open>GEN_linear_functor_2(name)\<close>: fields \<^verbatim>\<open>p, a, b, m\<close>, constructor
  \<^verbatim>\<open>functor_name(T _p, T _a = 1, T _b = 0, T _m = 0)\<close>, call operator
  \<^verbatim>\<open>m * name(a * x + b, p)\<close>.
\<close>

record functor_name_2 =
  gp :: real
  ga :: real
  gb :: real
  gm :: real

definition functor_name_2_ctor :: "real \<Rightarrow> real option \<Rightarrow> real option \<Rightarrow> real option \<Rightarrow> functor_name_2" where
  "functor_name_2_ctor p' a' b' m' = \<lparr>gp = p', ga = dflt 1 a', gb = dflt 0 b', gm = dflt 0 m'\<rparr>"

definition functor_name_2_call :: "(real \<Rightarrow> real \<Rightarrow> real) \<Rightarrow> functor_name_2 \<Rightarrow> real \<Rightarrow> real" where
  "functor_name_2_call name F x = gm F * name (ga F * x + gb F) (gp F)"

text \<open>\<^verbatim>\<open>GEN_transf_2(name)\<close>: the two overloads for a binary function.\<close>

definition gpu_name_2 :: "(real \<Rightarrow> real \<Rightarrow> real) \<Rightarrow> addr \<Rightarrow> int \<Rightarrow> addr \<Rightarrow> real \<Rightarrow> real \<Rightarrow> real \<Rightarrow> real \<Rightarrow> device \<Rightarrow> device" where
  "gpu_name_2 name begin sz out p a b m mem =
     transform begin (begin + sz) out
       (functor_name_2_call name (functor_name_2_ctor p (Some a) (Some b) (Some m))) mem"

definition gpu_name_2_inplace :: "(real \<Rightarrow> real \<Rightarrow> real) \<Rightarrow> addr \<Rightarrow> int \<Rightarrow> real \<Rightarrow> real \<Rightarrow> real \<Rightarrow> real \<Rightarrow> device \<Rightarrow> device" where
  "gpu_name_2_inplace name begin sz p a b m mem = gpu_name_2 name begin sz begin p a b m mem"

text \<open>
  The special case without an elementary function: \<^verbatim>\<open>functor_linear\<close> with constructor
  \<^verbatim>\<open>functor_linear(T _a = 1, T _b = 0)\<close> and call operator \<^verbatim>\<open>a * x + b\<close>, and
  \<^verbatim>\<open>gpu_linear\<close>, which launches nothing for \<^verbatim>\<open>a == 1 && b == 0\<close> on one array and
  copies between two.
\<close>

record functor_linear =
  la :: real
  lb :: real

definition functor_linear_ctor :: "real option \<Rightarrow> real option \<Rightarrow> functor_linear" where
  "functor_linear_ctor a' b' = \<lparr>la = dflt 1 a', lb = dflt 0 b'\<rparr>"

definition functor_linear_call :: "functor_linear \<Rightarrow> real \<Rightarrow> real" where
  "functor_linear_call F x = la F * x + lb F"

definition gpu_linear_calls :: "addr \<Rightarrow> int \<Rightarrow> addr \<Rightarrow> real \<Rightarrow> real \<Rightarrow> thrust_call list" where
  "gpu_linear_calls begin sz out a b =
     (if a = 1 \<and> b = 0 then
        (if begin \<noteq> out then [Copy_n begin sz out] else [])
      else [Transform begin (begin + sz) out
              (functor_linear_call (functor_linear_ctor (Some a) (Some b)))])"

definition gpu_linear :: "addr \<Rightarrow> int \<Rightarrow> addr \<Rightarrow> real \<Rightarrow> real \<Rightarrow> device \<Rightarrow> device" where
  "gpu_linear begin sz out a b mem = exec_calls (gpu_linear_calls begin sz out a b) mem"

definition gpu_linear_inplace :: "addr \<Rightarrow> int \<Rightarrow> real \<Rightarrow> real \<Rightarrow> device \<Rightarrow> device" where
  "gpu_linear_inplace begin sz a b mem = gpu_linear begin sz begin a b mem"

section \<open>Reductions and the softmax family (gpu\_src)\<close>

definition gpu_max :: "addr \<Rightarrow> int \<Rightarrow> device \<Rightarrow> real" where
  "gpu_max begin sz mem = mem (max_element begin (begin + sz) mem)"

definition gpu_sum :: "addr \<Rightarrow> int \<Rightarrow> device \<Rightarrow> real" where
  "gpu_sum begin sz mem = reduce_plus begin (begin + sz) 0 mem"

text \<open>
  \<^verbatim>\<open>gpu_softmax(begin, size, out)\<close>: the calls \<^verbatim>\<open>gpu_exp<T>(begin, size, out, 1, -mx)\<close>
  (so \<^verbatim>\<open>m\<close> takes its default 1) and \<^verbatim>\<open>gpu_linear<T>(out, size, 1.0 / s, 0)\<close> (the
  in-place overload). The C function \<^verbatim>\<open>exp\<close> is \<^term>\<open>exp\<close> and \<^verbatim>\<open>log\<close> is \<^term>\<open>ln\<close>.
\<close>

definition gpu_softmax :: "addr \<Rightarrow> int \<Rightarrow> addr \<Rightarrow> device \<Rightarrow> device" where
  "gpu_softmax begin sz out mem =
     (let mx = gpu_max begin sz mem;
          mem1 = gpu_name exp begin sz out 1 (- mx) 1 mem;
          s = gpu_sum out sz mem1
      in gpu_linear_inplace out sz (1 / s) 0 mem1)"

definition gpu_softmax_inplace :: "addr \<Rightarrow> int \<Rightarrow> device \<Rightarrow> device" where
  "gpu_softmax_inplace begin sz mem = gpu_softmax begin sz begin mem"

text \<open>\<^verbatim>\<open>gpu_softmax_minus_id\<close>: softmax, then \<^verbatim>\<open>-- *(out + label)\<close>.\<close>

definition gpu_softmax_minus_id :: "addr \<Rightarrow> int \<Rightarrow> addr \<Rightarrow> int \<Rightarrow> device \<Rightarrow> device" where
  "gpu_softmax_minus_id begin sz out label mem =
     (let mem1 = gpu_softmax begin sz out mem
      in mem1(out + label := mem1 (out + label) - 1))"

definition gpu_softmax_minus_id_inplace :: "addr \<Rightarrow> int \<Rightarrow> int \<Rightarrow> device \<Rightarrow> device" where
  "gpu_softmax_minus_id_inplace begin sz label mem = gpu_softmax_minus_id begin sz begin label mem"


text \<open>
  The deprecated \<^verbatim>\<open>gpu_softmax_minus_id_2\<close>, in place on \<^verbatim>\<open>begin\<close>. It is not a template:
  \<^verbatim>\<open>mx\<close> and \<^verbatim>\<open>logsum\<close> are \<^verbatim>\<open>float\<close> variables, the logarithm is narrowed to \<^verbatim>\<open>float\<close>
  when it is stored in \<^verbatim>\<open>logsum\<close>, and \<^verbatim>\<open>mx + logsum\<close> is a single-precision sum. The
  rounding of this sum is an absolute error in the exponent, as large as half a unit
  in the last place of \<^verbatim>\<open>mx\<close>, so both conversions are written out.
\<close>

definition gpu_softmax_minus_id_2 :: "addr \<Rightarrow> int \<Rightarrow> int \<Rightarrow> device \<Rightarrow> device" where
  "gpu_softmax_minus_id_2 begin sz id' mem =
     (let mx = gpu_max begin sz mem;
          logsum = float_of (ln (transform_reduce_plus begin (begin + sz)
                     (functor_name_call exp (functor_name_ctor (Some 1) (Some (- mx)) None)) 0 mem));
          mem1 = gpu_name_inplace exp begin sz 1 (- float_of (mx + logsum)) 1 mem
      in mem1(begin + id' := mem1 (begin + id') - 1))"

text \<open>
  The quantities the softmax claims speak of: the largest element of the array
  \<open>begin[0..sz)\<close> and the sum of \<open>exp (x - max)\<close> over its elements.
\<close>

definition array_max :: "addr \<Rightarrow> int \<Rightarrow> device \<Rightarrow> real" where
  "array_max begin sz mem = Max ((\<lambda>k. mem (begin + int k)) ` {..<nat sz})"

definition exp_sum :: "addr \<Rightarrow> int \<Rightarrow> device \<Rightarrow> real" where
  "exp_sum begin sz mem = (\<Sum>k<nat sz. exp (mem (begin + int k) - array_max begin sz mem))"

text \<open>
  The error of the shift \<^verbatim>\<open>mx + logsum\<close> that \<^verbatim>\<open>gpu_softmax_minus_id_2\<close> forms in single
  precision, against the exact \<open>max + ln (sum of exp (x - max))\<close>.
\<close>

definition shift_error :: "addr \<Rightarrow> int \<Rightarrow> device \<Rightarrow> real" where
  "shift_error begin sz mem =
     (array_max begin sz mem + ln (exp_sum begin sz mem))
       - float_of (array_max begin sz mem + float_of (ln (exp_sum begin sz mem)))"


section \<open>The per-type generation (MyThrust)\<close>

text \<open>
  \<^verbatim>\<open>GEN_linear_functor(name, Ftype)\<close> defines four functors without a post-scale:
  \<^verbatim>\<open>name(x)\<close>, \<^verbatim>\<open>name(x + b)\<close>, \<^verbatim>\<open>name(a * x)\<close> and \<^verbatim>\<open>name(a * x + b)\<close>. The parameter
  \<open>name\<close> is the call \<^verbatim>\<open>name(...)\<close> as it is compiled for an argument of type \<^verbatim>\<open>Ftype\<close>,
  with the implicit conversion of the argument to the parameter type of the function:
  none for the functions of the math library, which are overloaded for \<^verbatim>\<open>float\<close> and
  \<^verbatim>\<open>double\<close>, and the one written out below for the helpers this header declares.
\<close>

definition functor_name_ftype :: "(real \<Rightarrow> real) \<Rightarrow> real \<Rightarrow> real" where
  "functor_name_ftype name x = name x"

definition functor_name_ftype_1 :: "(real \<Rightarrow> real) \<Rightarrow> real \<Rightarrow> real \<Rightarrow> real" where
  "functor_name_ftype_1 name b x = name (x + b)"

definition functor_name_ftype_2 :: "(real \<Rightarrow> real) \<Rightarrow> real \<Rightarrow> real \<Rightarrow> real" where
  "functor_name_ftype_2 name a x = name (a * x)"

definition functor_name_ftype_3 :: "(real \<Rightarrow> real) \<Rightarrow> real \<Rightarrow> real \<Rightarrow> real \<Rightarrow> real" where
  "functor_name_ftype_3 name a b x = name (a * x + b)"

text \<open>
  \<^verbatim>\<open>GEN_transf_ftype(name, Ftype)\<close>: the in-place \<^verbatim>\<open>gpu_name_Ftype(begin, size, a, b)\<close> and
  the out-of-place \<^verbatim>\<open>gpu_name_Ftype(begin, size, out, a, b)\<close>, each choosing one of the
  four functors. Each is written as the list of Thrust calls it makes, run in order.
\<close>

definition gpu_name_ftype_inplace_calls :: "(real \<Rightarrow> real) \<Rightarrow> addr \<Rightarrow> int \<Rightarrow> real \<Rightarrow> real \<Rightarrow> thrust_call list" where
  "gpu_name_ftype_inplace_calls name begin sz a b =
     (if a = 1 \<and> b = 0 then [Transform begin (begin + sz) begin (functor_name_ftype name)]
      else if a = 1 then [Transform begin (begin + sz) begin (functor_name_ftype_1 name b)]
      else if b = 0 then [Transform begin (begin + sz) begin (functor_name_ftype_2 name a)]
      else [Transform begin (begin + sz) begin (functor_name_ftype_3 name a b)])"

definition gpu_name_ftype_inplace :: "(real \<Rightarrow> real) \<Rightarrow> addr \<Rightarrow> int \<Rightarrow> real \<Rightarrow> real \<Rightarrow> device \<Rightarrow> device" where
  "gpu_name_ftype_inplace name begin sz a b mem =
     exec_calls (gpu_name_ftype_inplace_calls name begin sz a b) mem"

definition gpu_name_ftype_calls :: "(real \<Rightarrow> real) \<Rightarrow> addr \<Rightarrow> int \<Rightarrow> addr \<Rightarrow> real \<Rightarrow> real \<Rightarrow> thrust_call list" where
  "gpu_name_ftype_calls name begin sz out a b =
     (if a = 1 \<and> b = 0 then [Transform begin (begin + sz) out (functor_name_ftype name)]
      else if a = 1 then [Transform begin (begin + sz) out (functor_name_ftype_1 name b)]
      else if b = 0 then [Transform begin (begin + sz) out (functor_name_ftype_2 name a)]
      else [Transform begin (begin + sz) out (functor_name_ftype_3 name a b)])"

definition gpu_name_ftype :: "(real \<Rightarrow> real) \<Rightarrow> addr \<Rightarrow> int \<Rightarrow> addr \<Rightarrow> real \<Rightarrow> real \<Rightarrow> device \<Rightarrow> device" where
  "gpu_name_ftype name begin sz out a b mem =
     exec_calls (gpu_name_ftype_calls name begin sz out a b) mem"

text \<open>
  \<^verbatim>\<open>GEN_transf();\<close> instantiates the macro with an empty name, so that \<^verbatim>\<open>name(x)\<close> is
  \<^verbatim>\<open>(x)\<close>: the plain linear transforms \<^verbatim>\<open>gpu__float\<close> and \<^verbatim>\<open>gpu__double\<close>.
\<close>

definition gpu__ftype_inplace_calls :: "addr \<Rightarrow> int \<Rightarrow> real \<Rightarrow> real \<Rightarrow> thrust_call list" where
  "gpu__ftype_inplace_calls begin sz a b = gpu_name_ftype_inplace_calls (\<lambda>x. x) begin sz a b"

definition gpu__ftype_inplace :: "addr \<Rightarrow> int \<Rightarrow> real \<Rightarrow> real \<Rightarrow> device \<Rightarrow> device" where
  "gpu__ftype_inplace begin sz a b mem = gpu_name_ftype_inplace (\<lambda>x. x) begin sz a b mem"

definition gpu__ftype_calls :: "addr \<Rightarrow> int \<Rightarrow> addr \<Rightarrow> real \<Rightarrow> real \<Rightarrow> thrust_call list" where
  "gpu__ftype_calls begin sz out a b = gpu_name_ftype_calls (\<lambda>x. x) begin sz out a b"

definition gpu__ftype :: "addr \<Rightarrow> int \<Rightarrow> addr \<Rightarrow> real \<Rightarrow> real \<Rightarrow> device \<Rightarrow> device" where
  "gpu__ftype begin sz out a b mem = gpu_name_ftype (\<lambda>x. x) begin sz out a b mem"

text \<open>
  The helpers of MyThrust (\<^verbatim>\<open>sigmoid\<close>, \<^verbatim>\<open>sigmoid_deriv\<close>, \<^verbatim>\<open>square\<close>, \<^verbatim>\<open>cube\<close>, \<^verbatim>\<open>reciprocal\<close>,
  \<^verbatim>\<open>cauchy\<close>, \<^verbatim>\<open>signum\<close>, \<^verbatim>\<open>laplacian\<close>) are declared \<^verbatim>\<open>inline float name(float)\<close>, and
  \<^verbatim>\<open>GEN_transf(name)\<close> generates the transforms for \<^verbatim>\<open>float\<close> and for \<^verbatim>\<open>double\<close>. In the
  \<^verbatim>\<open>double\<close> instance the argument of the call is converted to \<^verbatim>\<open>float\<close>; the \<^verbatim>\<open>float\<close>
  result converts back to \<^verbatim>\<open>double\<close> without loss.
\<close>

datatype ftype = Ftype_float | Ftype_double

definition arg_to_float :: "ftype \<Rightarrow> real \<Rightarrow> real" where
  "arg_to_float Ftype x = (case Ftype of Ftype_float \<Rightarrow> x | Ftype_double \<Rightarrow> float_of x)"

text \<open>
  \<^verbatim>\<open>square\<close>, and \<^verbatim>\<open>signum\<close> with its body \<^verbatim>\<open>(0 < val) - (val < 0)\<close>. In gpu\_src the same
  helpers are templates \<^verbatim>\<open>T name(T)\<close>.
\<close>

definition square :: "real \<Rightarrow> real" where
  "square x = x * x"

definition signum :: "real \<Rightarrow> real" where
  "signum val = of_bool (0 < val) - of_bool (val < 0)"

text \<open>
  \<^verbatim>\<open>GEN_transf(square)\<close> and \<^verbatim>\<open>GEN_transf(signum)\<close>: \<^verbatim>\<open>gpu_square_Ftype\<close> (both overloads) and
  the in-place \<^verbatim>\<open>gpu_signum_Ftype\<close>.
\<close>

definition gpu_square_ftype_inplace :: "ftype \<Rightarrow> addr \<Rightarrow> int \<Rightarrow> real \<Rightarrow> real \<Rightarrow> device \<Rightarrow> device" where
  "gpu_square_ftype_inplace Ftype begin sz a b mem =
     gpu_name_ftype_inplace (\<lambda>x. square (arg_to_float Ftype x)) begin sz a b mem"

definition gpu_square_ftype :: "ftype \<Rightarrow> addr \<Rightarrow> int \<Rightarrow> addr \<Rightarrow> real \<Rightarrow> real \<Rightarrow> device \<Rightarrow> device" where
  "gpu_square_ftype Ftype begin sz out a b mem =
     gpu_name_ftype (\<lambda>x. square (arg_to_float Ftype x)) begin sz out a b mem"

definition gpu_signum_ftype_inplace :: "ftype \<Rightarrow> addr \<Rightarrow> int \<Rightarrow> real \<Rightarrow> real \<Rightarrow> device \<Rightarrow> device" where
  "gpu_signum_ftype_inplace Ftype begin sz a b mem =
     gpu_name_ftype_inplace (\<lambda>x. signum (arg_to_float Ftype x)) begin sz a b mem"

section \<open>Sorting\<close>

text \<open>
  \<^verbatim>\<open>thrust::sort(first, last)\<close> and \<^verbatim>\<open>thrust::sort(first, last, comp)\<close> are library code,
  taken here as an insertion sort by the comparator \<open>cmp\<close> (\<^verbatim>\<open>operator<\<close> when none is
  given) on the elements of the range, written back to the range. The elements are
  reals, a total order without distinct equal values, so that every correct sort,
  stable or not, returns this list.
\<close>

fun insert_by :: "(real \<Rightarrow> real \<Rightarrow> bool) \<Rightarrow> real \<Rightarrow> real list \<Rightarrow> real list" where
  "insert_by cmp x [] = [x]"
| "insert_by cmp x (y # ys) = (if cmp y x then y # insert_by cmp x ys else x # y # ys)"

definition sort_by :: "(real \<Rightarrow> real \<Rightarrow> bool) \<Rightarrow> real list \<Rightarrow> real list" where
  "sort_by cmp xs = foldr (insert_by cmp) xs []"

text \<open>The contents of \<open>first[0..n)\<close> as a list, and a list stored back at \<open>first\<close>.\<close>

definition read_range :: "addr \<Rightarrow> int \<Rightarrow> device \<Rightarrow> real list" where
  "read_range first n mem = map (\<lambda>i. mem (first + int i)) [0..<nat n]"

definition write_range :: "addr \<Rightarrow> real list \<Rightarrow> device \<Rightarrow> device" where
  "write_range first xs mem =
     (\<lambda>p. if first \<le> p \<and> p < first + int (length xs) then xs ! nat (p - first) else mem p)"

definition thrust_sort :: "addr \<Rightarrow> addr \<Rightarrow> (real \<Rightarrow> real \<Rightarrow> bool) \<Rightarrow> device \<Rightarrow> device" where
  "thrust_sort first lst cmp mem =
     write_range first (sort_by cmp (read_range first (lst - first) mem)) mem"

text \<open>
  \<^verbatim>\<open>gpu_sort(begin, size, dir)\<close> of gpu\_src and \<^verbatim>\<open>gpu_sort_Ftype\<close> of MyThrust (\<^verbatim>\<open>GEN_sort\<close>)
  have the same body; \<^verbatim>\<open>greater<T>()\<close> is \<open>(>)\<close>.
\<close>

definition gpu_sort :: "addr \<Rightarrow> int \<Rightarrow> int \<Rightarrow> device \<Rightarrow> device" where
  "gpu_sort begin sz dir mem =
     (if dir > 0 then thrust_sort begin (begin + sz) (<) mem
      else thrust_sort begin (begin + sz) (>) mem)"

section \<open>Row and column fills of a column-major matrix (MyThrust)\<close>

text \<open>
  A CUDA \<^verbatim>\<open>dim3\<close>, whose default constructor sets every component to 1. Its components
  are \<^verbatim>\<open>unsigned int\<close>: an \<^verbatim>\<open>int\<close> stored in one is converted by \<open>u32\<close>. C integer
  division and remainder truncate towards zero: \<open>sdiv\<close> and \<open>smod\<close>.
\<close>

record dim3 =
  dim_x :: int
  dim_y :: int
  dim_z :: int

definition dim3_default :: dim3 where
  "dim3_default = \<lparr>dim_x = 1, dim_y = 1, dim_z = 1\<rparr>"

definition setKernelDim1D :: "int \<Rightarrow> dim3 \<Rightarrow> dim3 \<Rightarrow> dim3 \<times> dim3" where
  "setKernelDim1D threads gridDim blockDim =
     (if threads > 1024 then
        (gridDim\<lparr>dim_x := u32 (threads sdiv 1024 + 1)\<rparr>, blockDim\<lparr>dim_x := 1024\<rparr>)
      else if threads smod 32 = 0 then (gridDim, blockDim\<lparr>dim_x := u32 threads\<rparr>)
      else (gridDim, blockDim\<lparr>dim_x := u32 ((threads sdiv 32 + 1) * 32)\<rparr>))"

text \<open>
  A one-dimensional kernel launch \<^verbatim>\<open>kern<<<gridDim, blockDim>>>\<close> runs the kernel body once
  for every block index below \<^verbatim>\<open>gridDim.x\<close> and every thread index below \<^verbatim>\<open>blockDim.x\<close>.
  A launch with an empty grid or block, or with more than 1024 threads in a block (the
  limit the comment of \<^verbatim>\<open>setKernelDim1D\<close> names), fails and runs nothing. The threads
  are run one after the other, block by block. The kernel launched this way below
  stores the same value from every thread, so every schedule gives this result.
\<close>

definition launch_1D :: "dim3 \<Rightarrow> dim3 \<Rightarrow> (int \<Rightarrow> int \<Rightarrow> int \<Rightarrow> device \<Rightarrow> device) \<Rightarrow> device \<Rightarrow> device" where
  "launch_1D gridDim blockDim kern mem =
     (if dim_x gridDim < 1 \<or> dim_x blockDim < 1 \<or> 1024 < dim_x blockDim then mem
      else fold (\<lambda>bi m. fold (\<lambda>ti. kern (int bi) (dim_x blockDim) (int ti))
                           [0..<nat (dim_x blockDim)] m)
             [0..<nat (dim_x gridDim)] mem)"

text \<open>
  \<^verbatim>\<open>gpu_fill_col_float\<close>: a negative \<^verbatim>\<open>colIdx\<close> has \<^verbatim>\<open>col\<close> added, then one \<^verbatim>\<open>fill_n\<close> at
  \<^verbatim>\<open>begin + row * colIdx\<close>, an \<^verbatim>\<open>int\<close> product.
\<close>

definition gpu_fill_col_float :: "addr \<Rightarrow> int \<Rightarrow> int \<Rightarrow> int \<Rightarrow> real \<Rightarrow> device \<Rightarrow> device" where
  "gpu_fill_col_float begin row col colIdx val mem =
     (let colIdx = (if colIdx < 0 then i32 (colIdx + col) else colIdx)
      in fill_n (begin + i32 (row * colIdx)) row val mem)"

text \<open>
  \<^verbatim>\<open>gpu_fill_row_float_kernel\<close> for the thread \<^verbatim>\<open>threadIdx.x\<close> of block \<^verbatim>\<open>blockIdx.x\<close>; the macro
  \<^verbatim>\<open>ThreadIndex1D(idx, col)\<close> computes \<^verbatim>\<open>idx\<close> in \<^verbatim>\<open>unsigned int\<close>, stores it in an \<^verbatim>\<open>int\<close>
  and returns when \<^verbatim>\<open>idx >= col\<close>. The offset \<^verbatim>\<open>row * idx + rowIdx\<close> is \<^verbatim>\<open>int\<close> arithmetic.
\<close>

definition gpu_fill_row_float_kernel ::
    "addr \<Rightarrow> int \<Rightarrow> int \<Rightarrow> int \<Rightarrow> real \<Rightarrow> int \<Rightarrow> int \<Rightarrow> int \<Rightarrow> device \<Rightarrow> device" where
  "gpu_fill_row_float_kernel begin row col rowIdx val blockIdx_x blockDim_x threadIdx_x mem =
     (let idx = i32 (u32 (blockIdx_x * blockDim_x + threadIdx_x))
      in if idx \<ge> col then mem
         else mem(begin + i32 (i32 (row * idx) + rowIdx) := val))"

definition gpu_fill_row_float :: "addr \<Rightarrow> int \<Rightarrow> int \<Rightarrow> int \<Rightarrow> real \<Rightarrow> device \<Rightarrow> device" where
  "gpu_fill_row_float begin row col rowIdx val mem =
     (let (gridDim, blockDim) = setKernelDim1D col dim3_default dim3_default;
          rowIdx = (if rowIdx < 0 then i32 (rowIdx + row) else rowIdx)
      in launch_1D gridDim blockDim (gpu_fill_row_float_kernel begin row col rowIdx val) mem)"

text \<open>
  A matrix whose element offsets are representable in \<^verbatim>\<open>int\<close>: both dimensions positive
  and \<open>row * col\<close> below \<open>2^31\<close>.
\<close>

definition int_matrix :: "int \<Rightarrow> int \<Rightarrow> bool" where
  "int_matrix row col \<longleftrightarrow> 0 < row \<and> 0 < col \<and> row * col < 2147483648"

section \<open>Tiled matrix transpose (MyThrust)\<close>

text \<open>
  The kernel computes its indices in \<^verbatim>\<open>unsigned int\<close> (\<open>u32\<close>), and an \<^verbatim>\<open>int\<close> compared with
  or multiplied by such an index is converted to \<^verbatim>\<open>unsigned int\<close> as well.
\<close>

definition BLOCK_DIM :: int where
  "BLOCK_DIM = 16"

text \<open>
  The tile \<^verbatim>\<open>__shared__ float block[BLOCK_DIM][BLOCK_DIM + 1]\<close> of one thread block;
  \<^verbatim>\<open>block[i][j]\<close> is the value at \<open>(i, j)\<close>.
\<close>

type_synonym shared_block = "nat \<times> nat \<Rightarrow> real"

text \<open>
  \<^verbatim>\<open>gpu_transpose_float_kernel\<close> has two parts separated by \<^verbatim>\<open>__syncthreads()\<close>. The first
  part, for the thread \<open>tid = (threadIdx.x, threadIdx.y)\<close> of block
  \<open>(blockIdx.x, blockIdx.y)\<close>, reads one element of the input into the tile.
\<close>

definition transpose_read ::
    "addr \<Rightarrow> int \<Rightarrow> int \<Rightarrow> device \<Rightarrow> int \<Rightarrow> int \<Rightarrow> int \<times> int \<Rightarrow> shared_block \<Rightarrow> shared_block" where
  "transpose_read inp width height mem blockIdx_x blockIdx_y tid block =
     (let threadIdx_x = fst tid; threadIdx_y = snd tid;
          xIndex = u32 (blockIdx_x * BLOCK_DIM + threadIdx_x);
          yIndex = u32 (blockIdx_y * BLOCK_DIM + threadIdx_y)
      in if xIndex < u32 width \<and> yIndex < u32 height then
           (let index_in = u32 (yIndex * u32 width + xIndex)
            in block((nat threadIdx_y, nat threadIdx_x) := mem (inp + index_in)))
         else block)"

text \<open>The second part writes one element of the tile to the output.\<close>

definition transpose_write ::
    "addr \<Rightarrow> int \<Rightarrow> int \<Rightarrow> shared_block \<Rightarrow> int \<Rightarrow> int \<Rightarrow> int \<times> int \<Rightarrow> device \<Rightarrow> device" where
  "transpose_write out width height block blockIdx_x blockIdx_y tid mem =
     (let threadIdx_x = fst tid; threadIdx_y = snd tid;
          xIndex = u32 (blockIdx_y * BLOCK_DIM + threadIdx_x);
          yIndex = u32 (blockIdx_x * BLOCK_DIM + threadIdx_y)
      in if xIndex < u32 height \<and> yIndex < u32 width then
           (let index_out = u32 (yIndex * u32 height + xIndex)
            in mem(out + index_out := block (nat threadIdx_x, nat threadIdx_y)))
         else mem)"

text \<open>The index pairs \<open>(x, y)\<close> of a two-dimensional grid or block, \<open>x\<close> varying fastest.\<close>

definition grid_2D :: "dim3 \<Rightarrow> (int \<times> int) list" where
  "grid_2D d = concat (map (\<lambda>j. map (\<lambda>i. (int i, int j)) [0..<nat (dim_x d)]) [0..<nat (dim_y d)])"

text \<open>
  One thread block: every thread runs the first part, then, after the barrier, every
  thread runs the second part. The tile starts with the unspecified contents \<open>block0\<close>.
  The threads write pairwise different tile cells and output addresses, so the order
  in which they are run does not matter.
\<close>

definition gpu_transpose_float_kernel ::
    "addr \<Rightarrow> int \<Rightarrow> int \<Rightarrow> addr \<Rightarrow> shared_block \<Rightarrow> dim3 \<Rightarrow> int \<times> int \<Rightarrow> device \<Rightarrow> device" where
  "gpu_transpose_float_kernel inp width height out block0 blockDim bid mem =
     (let blockIdx_x = fst bid; blockIdx_y = snd bid;
          block = fold (transpose_read inp width height mem blockIdx_x blockIdx_y)
                    (grid_2D blockDim) block0
      in fold (transpose_write out width height block blockIdx_x blockIdx_y)
           (grid_2D blockDim) mem)"

text \<open>
  \<^verbatim>\<open>gpu_transpose_float(in, row, col, out)\<close> launches the kernel with \<^verbatim>\<open>width = row\<close> and
  \<^verbatim>\<open>height = col\<close> on a grid of \<^verbatim>\<open>max(row / BLOCK_DIM, 1)\<close> by \<^verbatim>\<open>max(col / BLOCK_DIM, 1)\<close>
  blocks of \<^verbatim>\<open>BLOCK_DIM\<close> by \<^verbatim>\<open>BLOCK_DIM\<close> threads.
\<close>

definition gpu_transpose_float :: "addr \<Rightarrow> int \<Rightarrow> int \<Rightarrow> addr \<Rightarrow> shared_block \<Rightarrow> device \<Rightarrow> device" where
  "gpu_transpose_float inp row col out block0 mem =
     (let gridDim = \<lparr>dim_x = max (row sdiv BLOCK_DIM) 1, dim_y = max (col sdiv BLOCK_DIM) 1, dim_z = 1\<rparr>;
          blockDim = \<lparr>dim_x = BLOCK_DIM, dim_y = BLOCK_DIM, dim_z = 1\<rparr>
      in fold (gpu_transpose_float_kernel inp row col out block0 blockDim) (grid_2D gridDim) mem)"

text \<open>
  A matrix shape whose element indices are representable in \<^verbatim>\<open>unsigned int\<close>: both
  dimensions positive and \<open>row * col\<close> below \<open>2^32\<close>.
\<close>

definition fits :: "int \<Rightarrow> int \<Rightarrow> bool" where
  "fits row col \<longleftrightarrow> 0 < row \<and> 0 < col \<and> row * col < 4294967296"

section \<open>Properties of the Thrust primitives\<close>

lemma transform_fold_at:
  assumes "result = first \<or> result + int n \<le> first \<or> first + int n \<le> result"
    and "k \<le> n"
  shows "fold (\<lambda>i m. m(result + int i := op (m (first + int i)))) [0..<k] mem p =
         (if result \<le> p \<and> p < result + int k then op (mem (first + (p - result))) else mem p)"
proof -
  define step where "step = (\<lambda>i m. m(result + int i := op (m (first + int i))))"
  have "fold step [0..<k] mem p =
        (if result \<le> p \<and> p < result + int k then op (mem (first + (p - result))) else mem p)"
    using assms(2)
  proof (induction k arbitrary: p)
    case 0
    then show ?case by auto
  next
    case (Suc k)
    from Suc.prems have kn: "k < n" and kle: "k \<le> n" by simp_all
    have rd: "\<not> (result \<le> first + int k \<and> first + int k < result + int k)"
      using assms(1) kn by auto
    have src: "fold step [0..<k] mem (first + int k) = mem (first + int k)"
      unfolding Suc.IH [OF kle] using rd by auto
    have "fold step [0..<Suc k] mem p =
          (if p = result + int k then op (fold step [0..<k] mem (first + int k))
           else fold step [0..<k] mem p)"
      by (simp add: step_def)
    also have "\<dots> = (if p = result + int k then op (mem (first + int k))
                     else if result \<le> p \<and> p < result + int k
                          then op (mem (first + (p - result))) else mem p)"
      by (simp only: src Suc.IH [OF kle, of p])
    also have "\<dots> = (if result \<le> p \<and> p < result + int (Suc k)
                     then op (mem (first + (p - result))) else mem p)"
      by auto
    finally show ?case .
  qed
  then show ?thesis by (simp only: step_def)
qed

lemma transform_at:
  assumes "result = first \<or> result + (lst - first) \<le> first \<or> lst \<le> result"
  shows "transform first lst result op mem p =
         (if result \<le> p \<and> p < result + (lst - first) then op (mem (first + (p - result)))
          else mem p)"
proof (cases "first \<le> lst")
  case True
  then have n: "int (nat (lst - first)) = lst - first" by simp
  have "result = first \<or> result + int (nat (lst - first)) \<le> first
        \<or> first + int (nat (lst - first)) \<le> result"
    using assms True by auto
  from transform_fold_at [OF this order_refl] show ?thesis
    unfolding transform_def n .
next
  case False
  then show ?thesis by (simp add: transform_def)
qed

section \<open>Machine integers and the conversion to single precision\<close>

lemma u32_id: "0 \<le> v \<Longrightarrow> v < 4294967296 \<Longrightarrow> u32 v = v"
  by (simp add: u32_def)

lemma i32_id: "- 2147483648 \<le> v \<Longrightarrow> v < 2147483648 \<Longrightarrow> i32 v = v"
  by (simp add: i32_def)

lemma i32_u32_id: "0 \<le> v \<Longrightarrow> v < 2147483648 \<Longrightarrow> i32 (u32 v) = v"
  by (simp add: i32_def u32_def)

lemma float_exp_eq:
  assumes "2 powr real_of_int k \<le> \<bar>x\<bar>" and "\<bar>x\<bar> < 2 powr real_of_int (k + 1)" and "- 126 \<le> k"
  shows "float_exp x = k"
proof -
  have "0 < \<bar>x\<bar>" using assms(1) by (smt (verit) powr_gt_zero)
  then have "\<lfloor>log 2 \<bar>x\<bar>\<rfloor> = k"
    using assms(1,2) by (simp add: floor_log_eq_powr_iff)
  then show ?thesis using assms(3) by (simp add: float_exp_def)
qed

lemma round_even_below_half:
  assumes "0 \<le> t" and "t < 1 / 2"
  shows "round_even (real_of_int n + t) = n"
proof -
  have "\<lfloor>real_of_int n + t\<rfloor> = n" using assms by linarith
  then show ?thesis using assms by (simp add: round_even_def Let_def)
qed

lemma round_even_tie:
  "round_even (real_of_int n + 1 / 2) = (if even n then n else n + 1)"
proof -
  have "\<lfloor>real_of_int n + 1 / 2\<rfloor> = n" by linarith
  then show ?thesis by (simp add: round_even_def Let_def)
qed

lemma round_even_bounds:
  assumes "real_of_int n \<le> r" and "r \<le> real_of_int m"
  shows "n \<le> round_even r \<and> round_even r \<le> m"
proof -
  have f: "n \<le> \<lfloor>r\<rfloor>" "\<lfloor>r\<rfloor> \<le> m" using assms by linarith+
  show ?thesis
  proof (cases "r = of_int \<lfloor>r\<rfloor>")
    case True
    then have "round_even r = \<lfloor>r\<rfloor>" by (simp add: round_even_def Let_def)
    with f show ?thesis by simp
  next
    case False
    then have "real_of_int \<lfloor>r\<rfloor> < r" by linarith
    with assms(2) have "\<lfloor>r\<rfloor> < m" by linarith
    moreover have "round_even r = \<lfloor>r\<rfloor> \<or> round_even r = \<lfloor>r\<rfloor> + 1"
      by (simp add: round_even_def Let_def)
    ultimately show ?thesis using f by linarith
  qed
qed

lemma float_of_16777217: "float_of 16777217 = 16777216"
proof -
  have e: "float_exp 16777217 = 24" by (rule float_exp_eq) simp_all
  have u: "float_ulp 16777217 = 2" by (simp add: float_ulp_def e)
  have "round_even (16777217 / 2) = round_even (real_of_int 8388608 + 1 / 2)" by simp
  also have "\<dots> = 8388608" by (simp only: round_even_tie) simp
  finally show ?thesis by (simp add: float_of_def u)
qed

lemma float_of_near_1e8:
  assumes "1 \<le> l" and "l \<le> 2"
  shows "float_of (100000000 + l) = 100000000"
proof -
  have e: "float_exp (100000000 + l) = 26" using assms by (intro float_exp_eq) simp_all
  have u: "float_ulp (100000000 + l) = 8" by (simp add: float_ulp_def e)
  have eq: "(100000000 + l) / 8 = real_of_int 12500000 + l / 8" by simp
  have r: "round_even (real_of_int 12500000 + l / 8) = 12500000"
    using assms by (intro round_even_below_half) simp_all
  have "round_even ((100000000 + l) / 8) = 12500000" unfolding eq by (rule r)
  then show ?thesis using assms by (simp add: float_of_def u)
qed

lemma float_of_between_1_2:
  assumes "1 \<le> x" and "x < 2"
  shows "1 \<le> float_of x \<and> float_of x \<le> 2"
proof -
  have e: "float_exp x = 0" using assms by (intro float_exp_eq) simp_all
  have u: "float_ulp x = 1 / 8388608" by (simp add: float_ulp_def e powr_minus_divide)
  have "real_of_int 8388608 \<le> x * 8388608" "x * 8388608 \<le> real_of_int 16777216"
    using assms by simp_all
  from round_even_bounds [OF this]
  have "8388608 \<le> round_even (x * 8388608)" "round_even (x * 8388608) \<le> 16777216" by simp_all
  then have "8388608 \<le> real_of_int (round_even (x * 8388608))"
    "real_of_int (round_even (x * 8388608)) \<le> 16777216" by linarith+
  then show ?thesis using assms by (simp add: float_of_def u)
qed

lemma ln3_bounds: "1 \<le> ln (3::real)" "ln (3::real) < 2"
proof -
  have "exp (1::real) \<le> 3" by (rule exp_le)
  then have "ln (exp (1::real)) \<le> ln 3" by (subst ln_le_cancel_iff) simp_all
  then show "1 \<le> ln (3::real)" by simp
  have "(2::real) \<le> exp 1" using exp_ge_add_one_self [of "1::real"] by simp
  then have "(2::real) * 2 \<le> exp 1 * exp 1" by (intro mult_mono) simp_all
  then have "(3::real) < exp 2" by (simp add: exp_add [symmetric])
  then have "ln (3::real) < ln (exp 2)" by (subst ln_less_cancel_iff) simp_all
  then show "ln (3::real) < 2" by simp
qed

lemma float_of_zero: "float_of 0 = 0"
  by (simp add: float_of_def)

lemma float_exp_tiny:
  assumes "x \<noteq> 0" and "\<bar>x\<bar> < 2 powr (- 125)"
  shows "float_exp x = - 126"
proof -
  have "log 2 \<bar>x\<bar> < - 125" using assms by (subst log_less_iff) simp_all
  then have "\<lfloor>log 2 \<bar>x\<bar>\<rfloor> < - 125" by linarith
  then show ?thesis by (simp add: float_exp_def)
qed

lemma float_of_tiny:
  assumes "0 < x" and "x < 1 / 2 ^ 150"
  shows "float_of x = 0"
proof -
  have "(1::real) / 2 ^ 150 < 2 powr (- 125)" by (simp add: powr_minus_divide)
  with assms have "\<bar>x\<bar> < 2 powr (- 125)" by simp
  with assms(1) have e: "float_exp x = - 126" by (intro float_exp_tiny) simp_all
  have u: "float_ulp x = 1 / 2 ^ 149"
    by (simp add: float_ulp_def e powr_minus_divide)
  have "x * 2 ^ 149 < 1 / 2" using assms(2) by (simp add: field_simps)
  then have "round_even (real_of_int 0 + x * 2 ^ 149) = 0"
    using assms(1) by (intro round_even_below_half) simp_all
  then show ?thesis by (simp add: float_of_def u)
qed

section \<open>The fused transform\<close>

lemma gpu_name_at:
  assumes "out = begin \<or> out + sz \<le> begin \<or> begin + sz \<le> out"
  shows "gpu_name name begin sz out a b m mem p =
         (if out \<le> p \<and> p < out + sz then m * name (a * mem (begin + (p - out)) + b) else mem p)"
proof -
  have "out = begin \<or> out + (begin + sz - begin) \<le> begin \<or> begin + sz \<le> out"
    using assms by simp
  from transform_at [OF this] show ?thesis
    by (simp add: gpu_name_def functor_name_call_def functor_name_ctor_def dflt_def)
qed

lemma gpu_name_2_at:
  assumes "out = begin \<or> out + sz \<le> begin \<or> begin + sz \<le> out"
  shows "gpu_name_2 name begin sz out p a b m mem q =
         (if out \<le> q \<and> q < out + sz then m * name (a * mem (begin + (q - out)) + b) p
          else mem q)"
proof -
  have "out = begin \<or> out + (begin + sz - begin) \<le> begin \<or> begin + sz \<le> out"
    using assms by simp
  from transform_at [OF this] show ?thesis
    by (simp add: gpu_name_2_def functor_name_2_call_def functor_name_2_ctor_def dflt_def)
qed

lemma gpu_name_ftype_at:
  assumes "out = begin \<or> out + sz \<le> begin \<or> begin + sz \<le> out"
  shows "gpu_name_ftype name begin sz out a b mem p =
         (if out \<le> p \<and> p < out + sz then name (a * mem (begin + (p - out)) + b) else mem p)"
proof -
  have "out = begin \<or> out + (begin + sz - begin) \<le> begin \<or> begin + sz \<le> out"
    using assms by simp
  from transform_at [OF this] show ?thesis
    by (simp add: gpu_name_ftype_def gpu_name_ftype_calls_def exec_calls_def
        functor_name_ftype_def functor_name_ftype_1_def
        functor_name_ftype_2_def functor_name_ftype_3_def)
qed

lemma gpu_name_ftype_inplace_at:
  "gpu_name_ftype_inplace name begin sz a b mem p =
     (if begin \<le> p \<and> p < begin + sz then name (a * mem p + b) else mem p)"
proof -
  have "begin = begin \<or> begin + (begin + sz - begin) \<le> begin \<or> begin + sz \<le> begin"
    by simp
  from transform_at [OF this] show ?thesis
    by (simp add: gpu_name_ftype_inplace_def gpu_name_ftype_inplace_calls_def exec_calls_def
        functor_name_ftype_def functor_name_ftype_1_def
        functor_name_ftype_2_def functor_name_ftype_3_def)
qed

text \<open>
  What the fused transforms store. For an elementary function \<open>name\<close> (or a binary \<open>name2\<close>
  with its fixed parameter \<open>p\<close>), affine parameters \<open>a\<close>, \<open>b\<close>, \<open>m\<close> and every index \<open>i\<close> of
  the input array, the transform of gpu\_src stores \<open>m * name (a * x + b)\<close> (respectively
  \<open>m * name2 (a * x + b) p\<close>) at position \<open>i\<close> of the output, where \<open>x\<close> is the input
  element at \<open>i\<close>: the out-of-place overload when the output is the input array itself
  or does not overlap it, and the in-place overload. The per-type generation has no
  post-scale and stores \<open>name (a * x + b)\<close>, where \<open>name\<close> is the call as compiled for the
  element type.
\<close>

lemma fused_transform_writes:
  assumes "0 \<le> i" and "i < sz"
    and "out = begin \<or> out + sz \<le> begin \<or> begin + sz \<le> out"
  shows "gpu_name name begin sz out a b m mem (out + i) = m * name (a * mem (begin + i) + b)
       \<and> gpu_name_inplace name begin sz a b m mem (begin + i) = m * name (a * mem (begin + i) + b)
       \<and> gpu_name_2 name2 begin sz out p a b m mem (out + i)
           = m * name2 (a * mem (begin + i) + b) p
       \<and> gpu_name_2_inplace name2 begin sz p a b m mem (begin + i)
           = m * name2 (a * mem (begin + i) + b) p
       \<and> gpu_name_ftype name begin sz out a b mem (out + i) = name (a * mem (begin + i) + b)
       \<and> gpu_name_ftype_inplace name begin sz a b mem (begin + i)
           = name (a * mem (begin + i) + b)"
proof -
  have same: "begin = begin \<or> begin + sz \<le> begin \<or> begin + sz \<le> begin" by simp
  have 1: "gpu_name name begin sz out a b m mem (out + i) = m * name (a * mem (begin + i) + b)"
    using assms(1,2) by (simp add: gpu_name_at [OF assms(3)])
  have 2: "gpu_name_inplace name begin sz a b m mem (begin + i)
           = m * name (a * mem (begin + i) + b)"
    using assms(1,2) by (simp add: gpu_name_inplace_def gpu_name_at [OF same])
  have 3: "gpu_name_2 name2 begin sz out p a b m mem (out + i)
           = m * name2 (a * mem (begin + i) + b) p"
    using assms(1,2) by (simp add: gpu_name_2_at [OF assms(3)])
  have 4: "gpu_name_2_inplace name2 begin sz p a b m mem (begin + i)
           = m * name2 (a * mem (begin + i) + b) p"
    using assms(1,2) by (simp add: gpu_name_2_inplace_def gpu_name_2_at [OF same])
  have 5: "gpu_name_ftype name begin sz out a b mem (out + i) = name (a * mem (begin + i) + b)"
    using assms(1,2) by (simp add: gpu_name_ftype_at [OF assms(3)])
  have 6: "gpu_name_ftype_inplace name begin sz a b mem (begin + i)
           = name (a * mem (begin + i) + b)"
    using assms(1,2) by (simp add: gpu_name_ftype_inplace_at)
  from 1 2 3 4 5 6 show ?thesis by blast
qed

lemma fused_transform_writes_example:
  "(0::int) \<le> 1 \<and> (1::int) < 3 \<and> ((10::int) = 0 \<or> 10 + 3 \<le> (0::int) \<or> (0::int) + 3 \<le> 10)
   \<and> gpu_name (\<lambda>x. x * x) 0 3 10 2 1 3 real_of_int 11 = 27
   \<and> gpu_name_inplace (\<lambda>x. x * x) 0 3 2 1 3 real_of_int 1 = 27
   \<and> gpu_name_2 (\<lambda>x q. x - q) 0 3 10 5 2 1 3 real_of_int 11 = -6
   \<and> gpu_name_2_inplace (\<lambda>x q. x - q) 0 3 5 2 1 3 real_of_int 1 = -6
   \<and> gpu_name_ftype (\<lambda>x. x * x) 0 3 10 2 1 real_of_int 11 = 9
   \<and> gpu_name_ftype_inplace (\<lambda>x. x * x) 0 3 2 1 real_of_int 1 = 9"
  using fused_transform_writes [of 1 3 10 0 "\<lambda>x. x * x" 2 1 3 real_of_int "\<lambda>x q. x - q" 5]
  by simp

text \<open>
  C1. The transform of MyThrust for \<^verbatim>\<open>square\<close> on \<^verbatim>\<open>double\<close> elements, with \<open>a = 1\<close> and
  \<open>b = 0\<close>, applied to the element 16777217 (which is \<open>2^24 + 1\<close>) stores
  281474976710656 (which is \<open>2^48\<close>): the argument is converted to \<^verbatim>\<open>float\<close>, where it
  rounds to \<open>2^24\<close>. The square of the element is 281475010265089, and that is what the
  transform of gpu\_src stores. In the same way the
  \<^verbatim>\<open>double\<close> instance of \<^verbatim>\<open>signum\<close> stores 0 for the positive element \<open>10^-50\<close>, which is 0
  as a \<^verbatim>\<open>float\<close>.
\<close>

theorem gpu_square_double_narrows:
  "gpu_square_ftype_inplace Ftype_double 0 1 1 0 (\<lambda>p. 16777217) 0 = 281474976710656
   \<and> gpu_name_inplace square 0 1 1 0 1 (\<lambda>p. 16777217) 0 = 281475010265089
   \<and> gpu_signum_ftype_inplace Ftype_double 0 1 1 0 (\<lambda>p. 1 / 10 ^ 50) 0 = 0
   \<and> gpu_name_inplace signum 0 1 1 0 1 (\<lambda>p. 1 / 10 ^ 50) 0 = 1"
proof -
  have same: "(0::int) = 0 \<or> (0::int) + 1 \<le> 0 \<or> (0::int) + 1 \<le> 0" by simp
  have 1: "gpu_square_ftype_inplace Ftype_double 0 1 1 0 (\<lambda>p. 16777217) 0 = 281474976710656"
    by (simp add: gpu_square_ftype_inplace_def gpu_name_ftype_inplace_at arg_to_float_def
        float_of_16777217 square_def)
  have 2: "gpu_name_inplace square 0 1 1 0 1 (\<lambda>p. 16777217) 0 = 281475010265089"
    by (simp add: gpu_name_inplace_def gpu_name_at [OF same] square_def)
  have 4: "gpu_signum_ftype_inplace Ftype_double 0 1 1 0 (\<lambda>p. 1 / 10 ^ 50) 0 = 0"
    by (simp add: gpu_signum_ftype_inplace_def gpu_name_ftype_inplace_at arg_to_float_def
        float_of_tiny signum_def)
  have 5: "gpu_name_inplace signum 0 1 1 0 1 (\<lambda>p. 1 / 10 ^ 50) 0 = 1"
    by (simp add: gpu_name_inplace_def gpu_name_at [OF same] signum_def)
  from 1 2 4 5 show ?thesis by blast
qed

section \<open>Default parameters of the functors\<close>

lemma functor_name_default: "functor_name_call name (functor_name_ctor None None None) x = name x"
  by (simp add: functor_name_call_def functor_name_ctor_def dflt_def)

lemma functor_linear_default: "functor_linear_call (functor_linear_ctor None None) x = x"
  by (simp add: functor_linear_call_def functor_linear_ctor_def dflt_def)

lemma functor_name_2_default:
  "functor_name_2_call name (functor_name_2_ctor p None None None) x = 0"
  by (simp add: functor_name_2_call_def functor_name_2_ctor_def dflt_def)

text \<open>
  C8. The constructor generated by \<^verbatim>\<open>GEN_linear_functor_2\<close> defaults \<open>m\<close> to 0, not to 1:
  \<^verbatim>\<open>functor_pow<T>(2)\<close> applied to 3 gives \<open>0 * pow(3, 2) = 0\<close>, while the plain
  function gives 9.
\<close>

theorem functor_pow_default_m_zero:
  "functor_name_2_call (powr) (functor_name_2_ctor 2 None None None) 3 = 0
   \<and> (3::real) powr 2 = 9"
  by (simp add: functor_name_2_call_def functor_name_2_ctor_def dflt_def)

section \<open>The pure affine transform with identity parameters\<close>

lemma copy_n_at:
  assumes "result = first \<or> result + n \<le> first \<or> first + n \<le> result"
  shows "copy_n first n result mem p =
         (if result \<le> p \<and> p < result + n then mem (first + (p - result)) else mem p)"
proof (cases "0 \<le> n")
  case True
  then have n: "int (nat n) = n" by simp
  have "result = first \<or> result + int (nat n) \<le> first \<or> first + int (nat n) \<le> result"
    using assms True by auto
  from transform_fold_at [OF this order_refl, of "\<lambda>x. x" mem p] show ?thesis
    unfolding copy_n_def n .
next
  case False
  then show ?thesis by (simp add: copy_n_def)
qed

lemma gpu_linear_at:
  assumes "out = begin \<or> out + sz \<le> begin \<or> begin + sz \<le> out"
  shows "gpu_linear begin sz out a b mem p =
         (if out \<le> p \<and> p < out + sz then a * mem (begin + (p - out)) + b else mem p)"
proof -
  have "out = begin \<or> out + (begin + sz - begin) \<le> begin \<or> begin + sz \<le> out"
    using assms by simp
  from transform_at [OF this] copy_n_at [OF assms] show ?thesis
    by (simp add: gpu_linear_def gpu_linear_calls_def exec_calls_def
        functor_linear_call_def functor_linear_ctor_def dflt_def)
qed

lemma gpu__ftype_at:
  assumes "out = begin \<or> out + sz \<le> begin \<or> begin + sz \<le> out"
  shows "gpu__ftype begin sz out a b mem p =
         (if out \<le> p \<and> p < out + sz then a * mem (begin + (p - out)) + b else mem p)"
  by (simp add: gpu__ftype_def gpu_name_ftype_at [OF assms])

text \<open>
  C3 (as amended). With \<open>a = 1\<close> and \<open>b = 0\<close>, \<^verbatim>\<open>gpu_linear\<close> of gpu\_src makes no Thrust
  call and leaves the memory as it is when input and output are the same array, and
  makes the single call \<^verbatim>\<open>copy_n\<close> when they differ, after which a non-overlapping
  output holds the input element for element and nothing else has changed. The plain
  linear transform of MyThrust (\<^verbatim>\<open>gpu__float\<close>, \<^verbatim>\<open>gpu__double\<close>) also leaves an array
  transformed in place unchanged and copies to a non-overlapping output, but by one
  full \<^verbatim>\<open>transform\<close> with the identity functor in both cases.
\<close>

theorem identity_linear:
  "gpu_linear_calls begin sz begin 1 0 = []
   \<and> gpu_linear begin sz begin 1 0 mem = mem
   \<and> gpu_linear_inplace begin sz 1 0 mem = mem
   \<and> (out \<noteq> begin \<longrightarrow> gpu_linear_calls begin sz out 1 0 = [Copy_n begin sz out])
   \<and> (out + sz \<le> begin \<or> begin + sz \<le> out \<longrightarrow>
        gpu_linear begin sz out 1 0 mem p =
          (if out \<le> p \<and> p < out + sz then mem (begin + (p - out)) else mem p))
   \<and> gpu__ftype_inplace_calls begin sz 1 0 =
        [Transform begin (begin + sz) begin (functor_name_ftype (\<lambda>x. x))]
   \<and> gpu__ftype_inplace begin sz 1 0 mem = mem
   \<and> gpu__ftype_calls begin sz out 1 0 =
        [Transform begin (begin + sz) out (functor_name_ftype (\<lambda>x. x))]
   \<and> (out + sz \<le> begin \<or> begin + sz \<le> out \<longrightarrow>
        gpu__ftype begin sz out 1 0 mem p =
          (if out \<le> p \<and> p < out + sz then mem (begin + (p - out)) else mem p))"
proof -
  have 1: "gpu_linear_calls begin sz begin 1 0 = []"
    by (simp add: gpu_linear_calls_def)
  have 2: "gpu_linear begin sz begin 1 0 mem = mem"
    by (simp add: gpu_linear_def 1 exec_calls_def)
  have 3: "gpu_linear_inplace begin sz 1 0 mem = mem"
    by (simp add: gpu_linear_inplace_def 2)
  have 4: "out \<noteq> begin \<longrightarrow> gpu_linear_calls begin sz out 1 0 = [Copy_n begin sz out]"
    by (auto simp: gpu_linear_calls_def)
  have 5: "out + sz \<le> begin \<or> begin + sz \<le> out \<longrightarrow>
        gpu_linear begin sz out 1 0 mem p =
          (if out \<le> p \<and> p < out + sz then mem (begin + (p - out)) else mem p)"
    by (simp add: gpu_linear_at)
  have 6: "gpu__ftype_inplace_calls begin sz 1 0 =
        [Transform begin (begin + sz) begin (functor_name_ftype (\<lambda>x. x))]"
    by (simp add: gpu__ftype_inplace_calls_def gpu_name_ftype_inplace_calls_def)
  have 7: "gpu__ftype_inplace begin sz 1 0 mem = mem"
    by (rule ext) (simp add: gpu__ftype_inplace_def gpu_name_ftype_inplace_at)
  have 8: "gpu__ftype_calls begin sz out 1 0 =
        [Transform begin (begin + sz) out (functor_name_ftype (\<lambda>x. x))]"
    by (simp add: gpu__ftype_calls_def gpu_name_ftype_calls_def)
  have 9: "out + sz \<le> begin \<or> begin + sz \<le> out \<longrightarrow>
        gpu__ftype begin sz out 1 0 mem p =
          (if out \<le> p \<and> p < out + sz then mem (begin + (p - out)) else mem p)"
    by (simp add: gpu__ftype_at)
  from 1 2 3 4 5 6 7 8 9 show ?thesis by blast
qed

theorem identity_linear_witness:
  "gpu_linear_calls 0 3 0 1 0 = []
   \<and> gpu_linear 0 3 0 1 0 real_of_int = real_of_int
   \<and> gpu_linear_calls 0 3 10 1 0 = [Copy_n 0 3 10]
   \<and> gpu_linear 0 3 10 1 0 real_of_int 11 = 1
   \<and> gpu__ftype_inplace 0 3 1 0 real_of_int = real_of_int
   \<and> gpu__ftype 0 3 10 1 0 real_of_int 11 = 1"
  using identity_linear [of 0 3 real_of_int 10 11] by simp

text \<open>
  The in-place plain linear transform of MyThrust does make a Thrust call for the
  identity parameters.
\<close>

theorem identity_linear_ftype_launches: "gpu__ftype_inplace_calls 0 3 1 0 \<noteq> []"
  by (simp add: gpu__ftype_inplace_calls_def gpu_name_ftype_inplace_calls_def)

section \<open>Reductions\<close>

lemma reduce_plus_sum:
  "reduce_plus first lst init mem = init + (\<Sum>k<nat (lst - first). mem (first + int k))"
proof -
  have "fold (\<lambda>i acc. acc + mem (first + int i)) [0..<n] init
        = init + (\<Sum>k<n. mem (first + int k))" for n
    by (induction n) simp_all
  then show ?thesis by (simp add: reduce_plus_def)
qed

lemma transform_reduce_plus_sum:
  "transform_reduce_plus first lst op init mem
   = init + (\<Sum>k<nat (lst - first). op (mem (first + int k)))"
proof -
  have "fold (\<lambda>i acc. acc + op (mem (first + int i))) [0..<n] init
        = init + (\<Sum>k<n. op (mem (first + int k)))" for n
    by (induction n) simp_all
  then show ?thesis by (simp add: transform_reduce_plus_def)
qed

lemma max_element_fold:
  fixes mem :: device
  shows "\<exists>j\<le>n. fold (\<lambda>i best. if mem best < mem (first + int i) then first + int i else best)
            [1..<Suc n] first = first + int j
        \<and> (\<forall>i\<le>n. mem (first + int i) \<le> mem (first + int j))"
proof (induction n)
  case 0
  show ?case by simp
next
  case (Suc n)
  then obtain j where j: "j \<le> n"
    "fold (\<lambda>i best. if mem best < mem (first + int i) then first + int i else best)
            [1..<Suc n] first = first + int j"
    "\<forall>i\<le>n. mem (first + int i) \<le> mem (first + int j)" by blast
  show ?case
  proof (cases "mem (first + int j) < mem (first + int (Suc n))")
    case True
    have "\<forall>i\<le>Suc n. mem (first + int i) \<le> mem (first + int (Suc n))"
      using j(3) True by (auto simp: le_Suc_eq intro: less_imp_le order_trans)
    with True j(2) show ?thesis
      by (intro exI [of _ "Suc n"]) simp
  next
    case False
    have "\<forall>i\<le>Suc n. mem (first + int i) \<le> mem (first + int j)"
      using j(3) False by (auto simp: le_Suc_eq)
    with False j(1,2) show ?thesis
      by (intro exI [of _ j]) simp
  qed
qed

lemma gpu_max_char:
  assumes "1 \<le> sz"
  shows "(\<exists>j. 0 \<le> j \<and> j < sz \<and> gpu_max begin sz mem = mem (begin + j))
       \<and> (\<forall>i. 0 \<le> i \<and> i < sz \<longrightarrow> mem (begin + i) \<le> gpu_max begin sz mem)"
proof -
  obtain n where n: "nat sz = Suc n" using assms by (cases "nat sz") auto
  from max_element_fold [of n mem "begin"] obtain j where j: "j \<le> n"
    "max_element begin (begin + sz) mem = begin + int j"
    "\<forall>i\<le>n. mem (begin + int i) \<le> mem (begin + int j)"
    by (auto simp: max_element_def n)
  have a: "0 \<le> int j \<and> int j < sz \<and> gpu_max begin sz mem = mem (begin + int j)"
    using j(1,2) n by (simp add: gpu_max_def)
  have b: "mem (begin + i) \<le> gpu_max begin sz mem" if "0 \<le> i" "i < sz" for i
  proof -
    have "nat i \<le> n" using that n by linarith
    with j(3) have "mem (begin + int (nat i)) \<le> mem (begin + int j)" by blast
    then show ?thesis using that a by simp
  qed
  from a b show ?thesis by blast
qed

lemma gpu_max_unique:
  assumes "1 \<le> sz" and "0 \<le> j" "j < sz" "v = mem (begin + j)"
    and "\<And>i. 0 \<le> i \<Longrightarrow> i < sz \<Longrightarrow> mem (begin + i) \<le> v"
  shows "gpu_max begin sz mem = v"
proof -
  from gpu_max_char [OF assms(1), of "begin" mem] obtain k where
    k: "0 \<le> k" "k < sz" "gpu_max begin sz mem = mem (begin + k)"
    and ub: "\<forall>i. 0 \<le> i \<and> i < sz \<longrightarrow> mem (begin + i) \<le> gpu_max begin sz mem" by blast
  have "gpu_max begin sz mem \<le> v" using k assms(5) by simp
  moreover have "v \<le> gpu_max begin sz mem" using ub assms(2,3,4) by simp
  ultimately show ?thesis by simp
qed

lemma gpu_max_shift:
  assumes "1 \<le> sz" and "\<forall>i. 0 \<le> i \<and> i < sz \<longrightarrow> mem' (begin + i) = mem (begin + i) + c"
  shows "gpu_max begin sz mem' = gpu_max begin sz mem + c"
proof -
  from gpu_max_char [OF assms(1), of "begin" mem] obtain k where
    k: "0 \<le> k" "k < sz" "gpu_max begin sz mem = mem (begin + k)"
    and ub: "\<forall>i. 0 \<le> i \<and> i < sz \<longrightarrow> mem (begin + i) \<le> gpu_max begin sz mem" by blast
  show ?thesis
  proof (rule gpu_max_unique [OF assms(1) k(1,2)])
    show "gpu_max begin sz mem + c = mem' (begin + k)" using assms(2) k by simp
    show "mem' (begin + i) \<le> gpu_max begin sz mem + c" if "0 \<le> i" "i < sz" for i
      using assms(2) ub that by simp
  qed
qed



lemma gpu_max_eq:
  assumes "1 \<le> sz"
  shows "gpu_max begin sz mem = array_max begin sz mem"
proof -
  from gpu_max_char [OF assms, of "begin" mem] obtain j where
    j: "0 \<le> j" "j < sz" "gpu_max begin sz mem = mem (begin + j)"
    and ub: "\<forall>i. 0 \<le> i \<and> i < sz \<longrightarrow> mem (begin + i) \<le> gpu_max begin sz mem" by blast
  have "Max ((\<lambda>k. mem (begin + int k)) ` {..<nat sz}) = gpu_max begin sz mem"
  proof (rule Max_eqI)
    show "finite ((\<lambda>k. mem (begin + int k)) ` {..<nat sz})" by simp
    show "y \<le> gpu_max begin sz mem" if "y \<in> (\<lambda>k. mem (begin + int k)) ` {..<nat sz}" for y
    proof -
      from that obtain k where k: "k < nat sz" "y = mem (begin + int k)" by auto
      then have "0 \<le> int k \<and> int k < sz" by linarith
      with ub k(2) show ?thesis by blast
    qed
    have "nat j < nat sz" "int (nat j) = j" using j by simp_all
    then show "gpu_max begin sz mem \<in> (\<lambda>k. mem (begin + int k)) ` {..<nat sz}"
      using j(3) by (intro image_eqI [of _ _ "nat j"]) simp_all
  qed
  then show ?thesis by (simp add: array_max_def)
qed

lemma exp_sum_pos:
  assumes "1 \<le> sz"
  shows "0 < exp_sum begin sz mem"
proof -
  have "{..<nat sz} \<noteq> {}" using assms by (simp add: lessThan_empty_iff)
  then show ?thesis unfolding exp_sum_def by (intro sum_pos) simp_all
qed

lemma exp_functor_reduce:
  "transform_reduce_plus begin (begin + sz)
     (functor_name_call exp (functor_name_ctor (Some 1) (Some (- array_max begin sz mem)) None)) 0 mem
   = exp_sum begin sz mem"
  by (simp add: transform_reduce_plus_sum exp_sum_def functor_name_call_def
      functor_name_ctor_def dflt_def)

lemma gpu_exp_sum:
  assumes "out = begin \<or> out + sz \<le> begin \<or> begin + sz \<le> out"
  shows "gpu_sum out sz (gpu_name exp begin sz out 1 (- array_max begin sz mem) 1 mem)
         = exp_sum begin sz mem"
proof -
  have "gpu_name exp begin sz out 1 (- array_max begin sz mem) 1 mem (out + int k)
        = exp (mem (begin + int k) - array_max begin sz mem)" if "k < nat sz" for k
  proof -
    from that have "int k < sz" by linarith
    then show ?thesis by (simp add: gpu_name_at [OF assms])
  qed
  then show ?thesis
    by (simp add: gpu_sum_def reduce_plus_sum exp_sum_def)
qed

lemma gpu_softmax_at:
  assumes "1 \<le> sz" and "out = begin \<or> out + sz \<le> begin \<or> begin + sz \<le> out"
  shows "gpu_softmax begin sz out mem p =
         (if out \<le> p \<and> p < out + sz
          then exp (mem (begin + (p - out)) - array_max begin sz mem) / exp_sum begin sz mem
          else mem p)"
proof -
  have same: "out = out \<or> out + sz \<le> out \<or> out + sz \<le> out" by simp
  show ?thesis
    by (simp add: gpu_softmax_def Let_def gpu_exp_sum [OF assms(2)] gpu_linear_inplace_def
        gpu_linear_at [OF same] gpu_name_at [OF assms(2)] gpu_max_eq [OF assms(1)])
qed

lemma gpu_softmax_sum:
  assumes "1 \<le> sz" and "out = begin \<or> out + sz \<le> begin \<or> begin + sz \<le> out"
  shows "gpu_sum out sz (gpu_softmax begin sz out mem) = 1"
proof -
  have "gpu_softmax begin sz out mem (out + int k)
        = exp (mem (begin + int k) - array_max begin sz mem) / exp_sum begin sz mem"
    if "k < nat sz" for k
  proof -
    from that have "int k < sz" by linarith
    then show ?thesis by (simp add: gpu_softmax_at [OF assms])
  qed
  then have "gpu_sum out sz (gpu_softmax begin sz out mem)
        = (\<Sum>k<nat sz. exp (mem (begin + int k) - array_max begin sz mem) / exp_sum begin sz mem)"
    by (simp add: gpu_sum_def reduce_plus_sum)
  also have "\<dots> = (\<Sum>k<nat sz. exp (mem (begin + int k) - array_max begin sz mem))
                    / exp_sum begin sz mem"
    by (simp only: sum_divide_distrib)
  also have "\<dots> = exp_sum begin sz mem / exp_sum begin sz mem"
    by (simp only: exp_sum_def)
  also have "\<dots> = 1" using exp_sum_pos [OF assms(1), of "begin" mem] by simp
  finally show ?thesis .
qed

lemma array_max_shift:
  assumes "1 \<le> sz" and "\<forall>i. 0 \<le> i \<and> i < sz \<longrightarrow> mem' (begin + i) = mem (begin + i) + c"
  shows "array_max begin sz mem' = array_max begin sz mem + c"
  using gpu_max_shift [OF assms] by (simp add: gpu_max_eq [OF assms(1)])

lemma exp_sum_shift:
  assumes "1 \<le> sz" and "\<forall>i. 0 \<le> i \<and> i < sz \<longrightarrow> mem' (begin + i) = mem (begin + i) + c"
  shows "exp_sum begin sz mem' = exp_sum begin sz mem"
proof -
  have "mem' (begin + int k) = mem (begin + int k) + c" if "k < nat sz" for k
    using assms(2) that by simp
  then show ?thesis
    by (simp add: exp_sum_def array_max_shift [OF assms])
qed

lemma gpu_softmax_shift:
  assumes "1 \<le> sz" and "out = begin \<or> out + sz \<le> begin \<or> begin + sz \<le> out"
    and "\<forall>i. 0 \<le> i \<and> i < sz \<longrightarrow> mem' (begin + i) = mem (begin + i) + c"
    and "0 \<le> i" "i < sz"
  shows "gpu_softmax begin sz out mem' (out + i) = gpu_softmax begin sz out mem (out + i)"
  using assms(3,4,5)
  by (simp add: gpu_softmax_at [OF assms(1,2)] exp_sum_shift [OF assms(1,3)]
      array_max_shift [OF assms(1,3)])




lemma gpu_max_zeros: "gpu_max 0 3 (\<lambda>p. 0) = 0"
  by (simp add: gpu_max_def max_element_def)

lemma array_max_zeros: "array_max 0 3 (\<lambda>p. 0) = 0"
  using gpu_max_eq [of 3 0 "\<lambda>p. 0"] by (simp add: gpu_max_zeros)

lemma exp_sum_zeros: "exp_sum 0 3 (\<lambda>p. 0) = 3"
  by (simp add: exp_sum_def array_max_zeros)

lemma gpu_softmax_zeros: "gpu_softmax 0 3 5 (\<lambda>p. 0) 6 = 1 / 3"
  by (simp add: gpu_softmax_at array_max_zeros exp_sum_zeros)

section \<open>Softmax\<close>

text \<open>
  C2. On a non-empty array, with the output either the input array itself or not
  overlapping it, the elements \<^verbatim>\<open>gpu_softmax\<close> writes sum to 1, and adding a constant
  \<open>c\<close> to every input element gives the same output. The computation is the stable
  pattern: \<^verbatim>\<open>gpu_max\<close> is the largest element, the fused exp stores \<open>exp (x - max)\<close>,
  \<^verbatim>\<open>gpu_sum\<close> of that is the sum of these exponentials, and the result is each
  exponential divided by the sum. (Exact arithmetic; rounding is outside the model.)
\<close>

theorem softmax_sums_to_one:
  assumes "1 \<le> sz" and "out = begin \<or> out + sz \<le> begin \<or> begin + sz \<le> out"
  shows "gpu_sum out sz (gpu_softmax begin sz out mem) = 1
       \<and> ((\<forall>i. 0 \<le> i \<and> i < sz \<longrightarrow> mem' (begin + i) = mem (begin + i) + c) \<longrightarrow>
           (\<forall>i. 0 \<le> i \<and> i < sz \<longrightarrow>
              gpu_softmax begin sz out mem' (out + i) = gpu_softmax begin sz out mem (out + i)))
       \<and> gpu_max begin sz mem = array_max begin sz mem
       \<and> (\<forall>i. 0 \<le> i \<and> i < sz \<longrightarrow>
             gpu_name exp begin sz out 1 (- gpu_max begin sz mem) 1 mem (out + i)
               = exp (mem (begin + i) - array_max begin sz mem))
       \<and> gpu_sum out sz (gpu_name exp begin sz out 1 (- gpu_max begin sz mem) 1 mem)
           = exp_sum begin sz mem
       \<and> (\<forall>p. gpu_softmax begin sz out mem p =
             (if out \<le> p \<and> p < out + sz
              then exp (mem (begin + (p - out)) - array_max begin sz mem) * (1 / exp_sum begin sz mem)
              else mem p))"
proof -
  have 1: "gpu_sum out sz (gpu_softmax begin sz out mem) = 1"
    by (rule gpu_softmax_sum [OF assms])
  have 2: "(\<forall>i. 0 \<le> i \<and> i < sz \<longrightarrow> mem' (begin + i) = mem (begin + i) + c) \<longrightarrow>
           (\<forall>i. 0 \<le> i \<and> i < sz \<longrightarrow>
              gpu_softmax begin sz out mem' (out + i) = gpu_softmax begin sz out mem (out + i))"
    using gpu_softmax_shift [OF assms] by blast
  have 3: "gpu_max begin sz mem = array_max begin sz mem"
    by (rule gpu_max_eq [OF assms(1)])
  have 4: "\<forall>i. 0 \<le> i \<and> i < sz \<longrightarrow>
             gpu_name exp begin sz out 1 (- gpu_max begin sz mem) 1 mem (out + i)
               = exp (mem (begin + i) - array_max begin sz mem)"
    by (simp add: gpu_name_at [OF assms(2)] 3)
  have 5: "gpu_sum out sz (gpu_name exp begin sz out 1 (- gpu_max begin sz mem) 1 mem)
           = exp_sum begin sz mem"
    by (simp add: 3 gpu_exp_sum [OF assms(2)])
  have 6: "\<forall>p. gpu_softmax begin sz out mem p =
             (if out \<le> p \<and> p < out + sz
              then exp (mem (begin + (p - out)) - array_max begin sz mem) * (1 / exp_sum begin sz mem)
              else mem p)"
    by (simp add: gpu_softmax_at [OF assms])
  from 1 2 3 4 5 6 show ?thesis by blast
qed

theorem softmax_sums_to_one_witness:
  "(1::int) \<le> 3 \<and> ((5::int) = 0 \<or> (5::int) + 3 \<le> 0 \<or> (0::int) + 3 \<le> 5)
   \<and> gpu_sum 5 3 (gpu_softmax 0 3 5 (\<lambda>p. 0)) = 1
   \<and> gpu_softmax 0 3 5 (\<lambda>p. 1) 6 = gpu_softmax 0 3 5 (\<lambda>p. 0) 6
   \<and> gpu_softmax 0 3 5 (\<lambda>p. 0) 6 = 1 / 3"
proof -
  have h1: "(1::int) \<le> 3" by simp
  have h2: "(5::int) = 0 \<or> (5::int) + 3 \<le> 0 \<or> (0::int) + 3 \<le> 5" by simp
  note t = softmax_sums_to_one [OF h1 h2, of "\<lambda>p. 0" "\<lambda>p. 1" 1]
  from t have a: "gpu_sum 5 3 (gpu_softmax 0 3 5 (\<lambda>p. 0)) = 1" by blast
  from t have "(\<forall>i. 0 \<le> i \<and> i < (3::int) \<longrightarrow> (1::real) = 0 + 1) \<longrightarrow>
           (\<forall>i. 0 \<le> i \<and> i < 3 \<longrightarrow>
              gpu_softmax 0 3 5 (\<lambda>p. 1) (5 + i) = gpu_softmax 0 3 5 (\<lambda>p. 0) (5 + i))"
    by blast
  then have "\<forall>i::int. 0 \<le> i \<and> i < 3 \<longrightarrow>
              gpu_softmax 0 3 5 (\<lambda>p. 1) (5 + i) = gpu_softmax 0 3 5 (\<lambda>p. 0) (5 + i)"
    by simp
  then have "(0::int) \<le> 1 \<and> (1::int) < 3 \<longrightarrow>
              gpu_softmax 0 3 5 (\<lambda>p. 1) (5 + 1) = gpu_softmax 0 3 5 (\<lambda>p. 0) (5 + 1)"
    by (rule spec)
  then have b: "gpu_softmax 0 3 5 (\<lambda>p. 1) 6 = gpu_softmax 0 3 5 (\<lambda>p. 0) 6" by simp
  from t have "gpu_softmax 0 3 5 (\<lambda>p. 0) 6 =
             (if (5::int) \<le> 6 \<and> (6::int) < 5 + 3
              then exp (0 - array_max 0 3 (\<lambda>p. 0)) * (1 / exp_sum 0 3 (\<lambda>p. 0))
              else 0)"
    by blast
  then have c: "gpu_softmax 0 3 5 (\<lambda>p. 0) 6 = 1 / 3"
    by (simp add: array_max_zeros exp_sum_zeros)
  from h1 h2 a b c show ?thesis by blast
qed



lemma gpu_max_const:
  assumes "1 \<le> sz"
  shows "gpu_max begin sz (\<lambda>p. c) = c"
  using gpu_max_char [OF assms, of "begin" "\<lambda>p. c"] by auto

lemma array_max_const:
  assumes "1 \<le> sz"
  shows "array_max begin sz (\<lambda>p. c) = c"
  using gpu_max_eq [OF assms, of "begin" "\<lambda>p. c"] gpu_max_const [OF assms] by simp

lemma exp_sum_const:
  assumes "1 \<le> sz"
  shows "exp_sum begin sz (\<lambda>p. c) = real_of_int sz"
  using assms by (simp add: exp_sum_def array_max_const [OF assms])

lemma gpu_softmax_minus_id_2_at:
  assumes "1 \<le> sz"
  shows "gpu_softmax_minus_id_2 begin sz label mem p =
           (if begin \<le> p \<and> p < begin + sz
            then gpu_softmax_inplace begin sz mem p * exp (shift_error begin sz mem)
            else mem p)
           - (if p = begin + label then 1 else 0)"
proof -
  have same: "begin = begin \<or> begin + sz \<le> begin \<or> begin + sz \<le> begin" by simp
  have pos: "0 < exp_sum begin sz mem" by (rule exp_sum_pos [OF assms])
  let ?mx = "array_max begin sz mem"
  let ?S = "exp_sum begin sz mem"
  let ?shift = "float_of (?mx + float_of (ln ?S))"
  have e: "exp (x - ?shift) = exp (x - ?mx) / ?S * exp (shift_error begin sz mem)" for x
  proof -
    have "x - ?shift = (x - ?mx) - ln ?S + shift_error begin sz mem"
      by (simp add: shift_error_def)
    then have "exp (x - ?shift) = exp (x - ?mx) / exp (ln ?S) * exp (shift_error begin sz mem)"
      by (simp only: exp_add exp_diff)
    then show ?thesis using pos by simp
  qed
  have m1: "gpu_name_inplace exp begin sz 1 (- ?shift) 1 mem q =
            (if begin \<le> q \<and> q < begin + sz
             then gpu_softmax_inplace begin sz mem q * exp (shift_error begin sz mem)
             else mem q)" for q
    using e [of "mem q"]
    by (simp add: gpu_name_inplace_def gpu_name_at [OF same] gpu_softmax_inplace_def
        gpu_softmax_at [OF assms same])
  show ?thesis
    by (simp add: gpu_softmax_minus_id_2_def Let_def gpu_max_eq [OF assms] exp_functor_reduce m1)
qed

text \<open>
  The deprecated function gives the softmax scaled by the exponential of the error of
  its single-precision shift, minus the indicator: it agrees with
  \<^verbatim>\<open>gpu_softmax_minus_id\<close> exactly when the shift is exact.
\<close>

lemma softmax_minus_id_2_scaled:
  assumes "1 \<le> sz"
  shows "(\<forall>p. gpu_softmax_minus_id_2 begin sz label mem p =
             (if begin \<le> p \<and> p < begin + sz
              then gpu_softmax_inplace begin sz mem p * exp (shift_error begin sz mem)
              else mem p)
             - (if p = begin + label then 1 else 0))
       \<and> (shift_error begin sz mem = 0 \<longrightarrow>
            gpu_softmax_minus_id_2 begin sz label mem
              = gpu_softmax_minus_id_inplace begin sz label mem)"
proof -
  have same: "begin = begin \<or> begin + sz \<le> begin \<or> begin + sz \<le> begin" by simp
  have 1: "\<forall>p. gpu_softmax_minus_id_2 begin sz label mem p =
             (if begin \<le> p \<and> p < begin + sz
              then gpu_softmax_inplace begin sz mem p * exp (shift_error begin sz mem)
              else mem p)
             - (if p = begin + label then 1 else 0)"
    using gpu_softmax_minus_id_2_at [OF assms] by blast
  have 2: "gpu_softmax_minus_id_2 begin sz label mem
              = gpu_softmax_minus_id_inplace begin sz label mem"
    if z: "shift_error begin sz mem = 0"
  proof (rule ext)
    fix p
    show "gpu_softmax_minus_id_2 begin sz label mem p
          = gpu_softmax_minus_id_inplace begin sz label mem p"
      by (simp add: gpu_softmax_minus_id_2_at [OF assms] z gpu_softmax_minus_id_inplace_def
          gpu_softmax_minus_id_def Let_def gpu_softmax_inplace_def gpu_softmax_at [OF assms same])
  qed
  from 1 2 show ?thesis by blast
qed

text \<open>
  C10. On the array 1e8, 1e8, 1e8 with label 1 the shift \<open>mx + logsum\<close> of
  \<^verbatim>\<open>gpu_softmax_minus_id_2\<close> is \<open>1e8 + ln 3\<close> rounded to single precision, which is 1e8
  (the unit in the last place there is 8): every element becomes \<open>exp 0 = 1\<close>, and the
  element at index 0 is left as 1. \<^verbatim>\<open>gpu_softmax_minus_id\<close> in place gives 1/3 there.
\<close>

theorem softmax_minus_id_2_differs:
  "gpu_softmax_minus_id_2 0 3 1 (\<lambda>p. 100000000) 0 = 1
   \<and> gpu_softmax_minus_id_inplace 0 3 1 (\<lambda>p. 100000000) 0 = 1 / 3"
proof -
  have h: "(1::int) \<le> 3" by simp
  have same: "(0::int) = 0 \<or> (0::int) + 3 \<le> 0 \<or> (0::int) + 3 \<le> 0" by simp
  have mx: "array_max 0 3 (\<lambda>p. 100000000) = 100000000" by (rule array_max_const [OF h])
  have S: "exp_sum 0 3 (\<lambda>p. 100000000) = 3" using exp_sum_const [OF h, of 0 100000000] by simp
  have l: "1 \<le> float_of (ln 3) \<and> float_of (ln 3) \<le> 2"
    by (rule float_of_between_1_2 [OF ln3_bounds])
  have sh: "float_of (100000000 + float_of (ln 3)) = 100000000"
    using l by (intro float_of_near_1e8) simp_all
  have sm: "gpu_softmax_inplace 0 3 (\<lambda>p. 100000000) 0 = 1 / 3"
    by (simp add: gpu_softmax_inplace_def gpu_softmax_at [OF h same] mx S)
  have "gpu_softmax_minus_id_2 0 3 1 (\<lambda>p. 100000000) 0
        = 1 / 3 * exp (100000000 + ln 3 - 100000000)"
    by (simp add: gpu_softmax_minus_id_2_at [OF h] sm shift_error_def mx S sh)
  then have a: "gpu_softmax_minus_id_2 0 3 1 (\<lambda>p. 100000000) 0 = 1" by simp
  have b: "gpu_softmax_minus_id_inplace 0 3 1 (\<lambda>p. 100000000) 0 = 1 / 3"
    using sm by (simp add: gpu_softmax_minus_id_inplace_def gpu_softmax_minus_id_def Let_def
        gpu_softmax_inplace_def)
  from a b show ?thesis by blast
qed

section \<open>Sorting in place\<close>

lemma mset_insert_by: "mset (insert_by cmp x ys) = add_mset x (mset ys)"
  by (induction ys) simp_all

lemma mset_sort_by: "mset (sort_by cmp xs) = mset xs"
  by (induction xs) (simp_all add: sort_by_def mset_insert_by)

lemma length_sort_by: "length (sort_by cmp xs) = length xs"
  using mset_sort_by [of cmp xs] by (metis size_mset)

lemma set_insert_by: "set (insert_by cmp x ys) = insert x (set ys)"
  using mset_insert_by [of cmp x ys] by (metis set_mset_add_mset_insert set_mset_mset)

lemma sorted_insert_less: "sorted ys \<Longrightarrow> sorted (insert_by (<) x ys)"
  by (induction ys) (auto simp: set_insert_by)

lemma sorted_insert_greater: "sorted_wrt (\<ge>) ys \<Longrightarrow> sorted_wrt (\<ge>) (insert_by (>) x ys)"
  by (induction ys) (auto simp: set_insert_by)

lemma sorted_sort_less: "sorted (sort_by (<) xs)"
  by (induction xs) (simp_all add: sort_by_def sorted_insert_less)

lemma sorted_sort_greater: "sorted_wrt (\<ge>) (sort_by (>) xs)"
  by (induction xs) (simp_all add: sort_by_def sorted_insert_greater)

lemma sort_by_less: "sort_by (<) xs = sort xs"
  by (rule properties_for_sort [symmetric]) (simp_all add: mset_sort_by sorted_sort_less)

lemma sort_by_greater: "sort_by (>) xs = rev (sort xs)"
proof -
  have s: "sorted (rev (sort_by (>) xs))"
    using sorted_sort_greater [of xs] by (simp add: sorted_wrt_rev)
  have m: "mset (rev (sort_by (>) xs)) = mset xs" by (simp add: mset_sort_by)
  have "sort xs = rev (sort_by (>) xs)" by (rule properties_for_sort [OF m s])
  then show ?thesis by simp
qed

lemma length_read_range: "length (read_range first n mem) = nat n"
  by (simp add: read_range_def)

lemma read_write_range:
  assumes "length xs = nat n"
  shows "read_range first n (write_range first xs mem) = xs"
proof (rule nth_equalityI)
  show "length (read_range first n (write_range first xs mem)) = length xs"
    using assms by (simp add: read_range_def)
next
  fix i
  assume "i < length (read_range first n (write_range first xs mem))"
  then have i: "i < length xs" using assms by (simp add: read_range_def)
  then have "read_range first n (write_range first xs mem) ! i
             = write_range first xs mem (first + int i)"
    using assms by (simp add: read_range_def)
  also have "\<dots> = xs ! i" using i by (simp add: write_range_def)
  finally show "read_range first n (write_range first xs mem) ! i = xs ! i" .
qed

lemma write_read_range: "write_range first (read_range first n mem) mem = mem"
  by (rule ext) (auto simp: read_range_def write_range_def)

lemma write_range_outside:
  "p < first \<or> first + int (length xs) \<le> p \<Longrightarrow> write_range first xs mem p = mem p"
  by (auto simp: write_range_def)

lemma write_write_range:
  "length ys = length xs \<Longrightarrow> write_range first ys (write_range first xs mem) = write_range first ys mem"
  by (rule ext) (auto simp: write_range_def)


lemma gpu_sort_read:
  "read_range begin sz (gpu_sort begin sz dir mem) =
     (if 0 < dir then sort (read_range begin sz mem) else rev (sort (read_range begin sz mem)))"
  by (simp add: gpu_sort_def thrust_sort_def sort_by_less sort_by_greater read_write_range
      length_read_range)

lemma gpu_sort_outside:
  "p < begin \<or> begin + sz \<le> p \<Longrightarrow> gpu_sort begin sz dir mem p = mem p"
  by (auto simp: gpu_sort_def thrust_sort_def write_range_def length_sort_by length_read_range)

lemma gpu_sort_sorted_asc:
  assumes "0 < dir" and "sorted (read_range begin sz mem)"
  shows "gpu_sort begin sz dir mem = mem"
proof -
  have "sort (read_range begin sz mem) = read_range begin sz mem"
    using assms(2) by (simp add: sort_key_id_if_sorted)
  then show ?thesis
    using assms(1) by (simp add: gpu_sort_def thrust_sort_def sort_by_less write_read_range)
qed

lemma gpu_sort_sorted_desc:
  assumes "\<not> 0 < dir" and "sorted_wrt (\<ge>) (read_range begin sz mem)"
  shows "gpu_sort begin sz dir mem = mem"
proof -
  have "sorted (rev (read_range begin sz mem))"
    using assms(2) by (simp add: sorted_wrt_rev)
  then have "sort (rev (read_range begin sz mem)) = rev (read_range begin sz mem)"
    by (simp add: sort_key_id_if_sorted)
  moreover have "sort (rev (read_range begin sz mem)) = sort (read_range begin sz mem)"
    by (rule properties_for_sort) simp_all
  ultimately have "rev (sort (read_range begin sz mem)) = read_range begin sz mem"
    by simp
  then show ?thesis
    using assms(1) by (simp add: gpu_sort_def thrust_sort_def sort_by_greater write_read_range)
qed

text \<open>
  C5. \<^verbatim>\<open>gpu_sort\<close> sorts the array in place and touches nothing outside it: afterwards
  the array is a permutation of what it was, ascending when \<open>dir > 0\<close> and descending
  otherwise. Sorting ascending and then descending gives the reverse of the ascending
  result. Sorting an array that is already sorted in the requested direction leaves
  the memory as it is, so sorting twice in one direction is the same as sorting once.
\<close>

theorem gpu_sort_spec:
  "(0 < dir \<longrightarrow> sorted (read_range begin sz (gpu_sort begin sz dir mem)))
   \<and> (\<not> 0 < dir \<longrightarrow> sorted_wrt (\<ge>) (read_range begin sz (gpu_sort begin sz dir mem)))
   \<and> mset (read_range begin sz (gpu_sort begin sz dir mem)) = mset (read_range begin sz mem)
   \<and> (\<forall>p. p < begin \<or> begin + sz \<le> p \<longrightarrow> gpu_sort begin sz dir mem p = mem p)
   \<and> (0 < d1 \<and> \<not> 0 < d2 \<longrightarrow>
        read_range begin sz (gpu_sort begin sz d2 (gpu_sort begin sz d1 mem))
          = rev (read_range begin sz (gpu_sort begin sz d1 mem)))
   \<and> (0 < dir \<and> sorted (read_range begin sz mem) \<longrightarrow> gpu_sort begin sz dir mem = mem)
   \<and> (\<not> 0 < dir \<and> sorted_wrt (\<ge>) (read_range begin sz mem) \<longrightarrow>
        gpu_sort begin sz dir mem = mem)
   \<and> gpu_sort begin sz dir (gpu_sort begin sz dir mem) = gpu_sort begin sz dir mem"
proof -
  have 1: "0 < dir \<longrightarrow> sorted (read_range begin sz (gpu_sort begin sz dir mem))"
    by (simp add: gpu_sort_read)
  have 2: "\<not> 0 < dir \<longrightarrow> sorted_wrt (\<ge>) (read_range begin sz (gpu_sort begin sz dir mem))"
    using sorted_wrt_rev [of "(\<ge>)" "sort (read_range begin sz mem)"]
    by (simp add: gpu_sort_read)
  have 3: "mset (read_range begin sz (gpu_sort begin sz dir mem)) = mset (read_range begin sz mem)"
    by (simp add: gpu_sort_read)
  have 4: "\<forall>p. p < begin \<or> begin + sz \<le> p \<longrightarrow> gpu_sort begin sz dir mem p = mem p"
    using gpu_sort_outside by blast
  have 5: "0 < d1 \<and> \<not> 0 < d2 \<longrightarrow>
        read_range begin sz (gpu_sort begin sz d2 (gpu_sort begin sz d1 mem))
          = rev (read_range begin sz (gpu_sort begin sz d1 mem))"
    by (simp add: gpu_sort_read sorted_sort_id)
  have 6: "0 < dir \<and> sorted (read_range begin sz mem) \<longrightarrow> gpu_sort begin sz dir mem = mem"
    using gpu_sort_sorted_asc by blast
  have 7: "\<not> 0 < dir \<and> sorted_wrt (\<ge>) (read_range begin sz mem) \<longrightarrow>
        gpu_sort begin sz dir mem = mem"
    using gpu_sort_sorted_desc by blast
  have 8: "gpu_sort begin sz dir (gpu_sort begin sz dir mem) = gpu_sort begin sz dir mem"
  proof (cases "0 < dir")
    case True
    with 1 show ?thesis by (simp add: gpu_sort_sorted_asc)
  next
    case False
    with 2 show ?thesis by (simp add: gpu_sort_sorted_desc)
  qed
  from 1 2 3 4 5 6 7 8 show ?thesis by blast
qed

lemma read_range_example:
  "read_range 0 3 (\<lambda>p. if p = 0 then 2 else if p = 1 then 3 else 1) = [2, 3, 1]"
  by (simp add: read_range_def upt_rec)

theorem gpu_sort_spec_witness:
  "(0::int) < 1 \<and> \<not> (0::int) < - 1
   \<and> read_range 0 3 (gpu_sort 0 3 1 (\<lambda>p. if p = 0 then 2 else if p = 1 then 3 else 1))
       = [1, 2, 3]
   \<and> sorted (read_range 0 3 (gpu_sort 0 3 1 (\<lambda>p. if p = 0 then 2 else if p = 1 then 3 else 1)))
   \<and> read_range 0 3
        (gpu_sort 0 3 (- 1) (gpu_sort 0 3 1 (\<lambda>p. if p = 0 then 2 else if p = 1 then 3 else 1)))
       = rev (read_range 0 3 (gpu_sort 0 3 1 (\<lambda>p. if p = 0 then 2 else if p = 1 then 3 else 1)))
   \<and> gpu_sort 0 3 1 (gpu_sort 0 3 1 (\<lambda>p. if p = 0 then 2 else if p = 1 then 3 else 1))
       = gpu_sort 0 3 1 (\<lambda>p. if p = 0 then 2 else if p = 1 then 3 else 1)"
proof -
  have v: "read_range 0 3 (gpu_sort 0 3 1 (\<lambda>p. if p = 0 then 2 else if p = 1 then 3 else 1))
           = [1, 2, 3]"
    by (simp add: gpu_sort_read read_range_example)
  have h: "(0::int) < 1 \<and> \<not> (0::int) < - 1" by simp
  note t = gpu_sort_spec [of 1 0 3 "\<lambda>p. if p = 0 then 2 else if p = 1 then 3 else 1" 1 "- 1"]
  from t h have a:
    "sorted (read_range 0 3 (gpu_sort 0 3 1 (\<lambda>p. if p = 0 then 2 else if p = 1 then 3 else 1)))"
    by blast
  from t h have b: "read_range 0 3
        (gpu_sort 0 3 (- 1) (gpu_sort 0 3 1 (\<lambda>p. if p = 0 then 2 else if p = 1 then 3 else 1)))
       = rev (read_range 0 3 (gpu_sort 0 3 1 (\<lambda>p. if p = 0 then 2 else if p = 1 then 3 else 1)))"
    by blast
  from t have c: "gpu_sort 0 3 1 (gpu_sort 0 3 1 (\<lambda>p. if p = 0 then 2 else if p = 1 then 3 else 1))
       = gpu_sort 0 3 1 (\<lambda>p. if p = 0 then 2 else if p = 1 then 3 else 1)"
    by blast
  from h v a b c show ?thesis by blast
qed

section \<open>Filling a column and a row\<close>

lemma fold_fill_sets:
  assumes "\<And>i m. step i m = (\<lambda>p. if p \<in> S i then v else m p)"
  shows "fold step [0..<k] mem p = (if \<exists>i<k. p \<in> S i then v else mem p)"
proof (induction k arbitrary: p)
  case 0
  show ?case by simp
next
  case (Suc k)
  have "fold step [0..<Suc k] mem p = step k (fold step [0..<k] mem) p" by simp
  also have "\<dots> = (if p \<in> S k then v else fold step [0..<k] mem p)"
    by (simp add: assms)
  also have "\<dots> = (if p \<in> S k then v else if \<exists>i<k. p \<in> S i then v else mem p)"
    by (simp only: Suc.IH)
  also have "\<dots> = (if \<exists>i<Suc k. p \<in> S i then v else mem p)"
    by (auto simp: less_Suc_eq)
  finally show ?case .
qed

lemma fill_n_at:
  "fill_n first n val mem p = (if first \<le> p \<and> p < first + n then val else mem p)"
proof -
  have "fold (\<lambda>i m. m(first + int i := val)) [0..<nat n] mem p
        = (if \<exists>i<nat n. p \<in> {first + int i} then val else mem p)"
    by (rule fold_fill_sets) auto
  moreover have "(\<exists>i<nat n. p \<in> {first + int i}) \<longleftrightarrow> first \<le> p \<and> p < first + n"
  proof
    assume "\<exists>i<nat n. p \<in> {first + int i}"
    then show "first \<le> p \<and> p < first + n" by auto
  next
    assume a: "first \<le> p \<and> p < first + n"
    then have "nat (p - first) < nat n" "p \<in> {first + int (nat (p - first))}" by auto
    then show "\<exists>i<nat n. p \<in> {first + int i}" by blast
  qed
  ultimately show ?thesis by (simp only: fill_n_def)
qed

lemma sdiv_nonneg: "0 \<le> k \<Longrightarrow> 0 < l \<Longrightarrow> (k::int) sdiv l = k div l"
  by (simp add: signed_divide_int_def sgn_if)

lemma smod_nonneg: "0 \<le> k \<Longrightarrow> 0 < l \<Longrightarrow> (k::int) smod l = k mod l"
  by (simp add: signed_modulo_int_def sgn_if)

lemma int_matrix_bounds:
  assumes "int_matrix row col"
  shows "0 < row" "row < 2147483648" "0 < col" "col < 2147483648"
proof -
  have p: "0 < row" "0 < col" "row * col < 2147483648"
    using assms by (simp_all add: int_matrix_def)
  have a: "row \<le> row * col" using mult_left_mono [of 1 col row] p by simp
  have b: "col \<le> row * col" using mult_right_mono [of 1 row col] p by simp
  show "0 < row" "row < 2147483648" "0 < col" "col < 2147483648" using p a b by linarith+
qed

lemma int_matrix_column:
  assumes "int_matrix row col" and "0 \<le> c" "c < col"
  shows "0 \<le> row * c" "row * c + row \<le> row * col"
proof -
  have p: "0 < row" using assms(1) by (simp add: int_matrix_def)
  have "(c + 1) * row \<le> col * row" using assms(3) p by (intro mult_right_mono) simp_all
  then show "row * c + row \<le> row * col" by (simp add: algebra_simps)
  show "0 \<le> row * c" using assms(2) p by simp
qed

lemma int_matrix_offset:
  assumes "int_matrix row col" and "0 \<le> c" "c < col"
  shows "i32 (row * c) = row * c"
    and "0 \<le> r \<Longrightarrow> r < row \<Longrightarrow> i32 (row * c + r) = row * c + r"
proof -
  have p: "0 < row" "row * col < 2147483648" using assms(1) by (simp_all add: int_matrix_def)
  note c = int_matrix_column [OF assms]
  show "i32 (row * c) = row * c" using c p by (intro i32_id) linarith+
  show "i32 (row * c + r) = row * c + r" if "0 \<le> r" "r < row"
    using c p that by (intro i32_id) linarith+
qed

lemma gpu_fill_col_float_at:
  assumes "int_matrix row col" and "- col \<le> colIdx" "colIdx < col"
  shows "gpu_fill_col_float begin row col colIdx val mem p =
     (if begin + row * (if colIdx < 0 then colIdx + col else colIdx) \<le> p
         \<and> p < begin + row * (if colIdx < 0 then colIdx + col else colIdx) + row
      then val else mem p)"
proof -
  note b = int_matrix_bounds [OF assms(1)]
  let ?r = "if colIdx < 0 then colIdx + col else colIdx"
  have r: "0 \<le> ?r" "?r < col" using assms(2,3) by simp_all
  have 1: "(if colIdx < 0 then i32 (colIdx + col) else colIdx) = ?r"
    using assms(2,3) b by (simp add: i32_id)
  have 2: "i32 (row * ?r) = row * ?r"
    using int_matrix_offset(1) [OF assms(1) r] b(1) by simp
  show ?thesis
    unfolding gpu_fill_col_float_def Let_def 1 2 by (simp only: fill_n_at)
qed


lemma setKernelDim1D_shape:
  assumes "0 < col" and "col < 2147483648"
    and "setKernelDim1D col dim3_default dim3_default = (gridDim, blockDim)"
  shows "1 \<le> dim_x gridDim" "1 \<le> dim_x blockDim" "dim_x blockDim \<le> 1024"
    "dim_x gridDim * dim_x blockDim \<le> 2147483648" "col \<le> dim_x gridDim * dim_x blockDim"
proof -
  have col: "0 \<le> col" using assms(1) by simp
  consider (big) "col > 1024" | (exact) "col \<le> 1024" "col smod 32 = 0"
    | (round) "col \<le> 1024" "col smod 32 \<noteq> 0" by linarith
  then have "1 \<le> dim_x gridDim \<and> 1 \<le> dim_x blockDim \<and> dim_x blockDim \<le> 1024
             \<and> dim_x gridDim * dim_x blockDim \<le> 2147483648
             \<and> col \<le> dim_x gridDim * dim_x blockDim"
  proof cases
    case big
    have d: "0 \<le> col div 1024" "col div 1024 \<le> 2097151" using assms(1,2) by simp_all
    then have "u32 (col div 1024 + 1) = col div 1024 + 1" by (simp add: u32_def)
    with big have g: "dim_x gridDim = col div 1024 + 1" and b: "dim_x blockDim = 1024"
      using assms(3) col by (auto simp: setKernelDim1D_def dim3_default_def sdiv_nonneg)
    have "col < (col div 1024 + 1) * 1024" by presburger
    with d show ?thesis unfolding g b by simp
  next
    case exact
    have "u32 col = col" using assms(1,2) by (simp add: u32_def)
    with exact have g: "dim_x gridDim = 1" and b: "dim_x blockDim = col"
      using assms(3) by (auto simp: setKernelDim1D_def dim3_default_def)
    show ?thesis unfolding g b using assms(1) exact(1) by simp
  next
    case round
    then have m: "col mod 32 \<noteq> 0" using col by (simp add: smod_nonneg)
    have d: "0 \<le> col div 32" using col by simp
    have u: "col < (col div 32 + 1) * 32" by presburger
    have v: "(col div 32 + 1) * 32 \<le> 1024" using round(1) m by presburger
    have "u32 ((col div 32 + 1) * 32) = (col div 32 + 1) * 32"
      using d v by (intro u32_id) simp_all
    with round have g: "dim_x gridDim = 1" and b: "dim_x blockDim = (col div 32 + 1) * 32"
      using assms(3) col by (auto simp: setKernelDim1D_def dim3_default_def sdiv_nonneg)
    show ?thesis unfolding g b using u v d by simp
  qed
  then show "1 \<le> dim_x gridDim" "1 \<le> dim_x blockDim" "dim_x blockDim \<le> 1024"
    "dim_x gridDim * dim_x blockDim \<le> 2147483648" "col \<le> dim_x gridDim * dim_x blockDim"
    by simp_all
qed

lemma launch_1D_fill_row:
  assumes "1 \<le> dim_x gridDim" "1 \<le> dim_x blockDim" "dim_x blockDim \<le> 1024"
    and "dim_x gridDim * dim_x blockDim \<le> 2147483648"
  shows "launch_1D gridDim blockDim (gpu_fill_row_float_kernel begin row col r val) mem p =
     (if \<exists>c. 0 \<le> c \<and> c < dim_x gridDim * dim_x blockDim \<and> c < col
             \<and> p = begin + i32 (i32 (row * c) + r)
      then val else mem p)"
proof -
  let ?G = "dim_x gridDim" and ?D = "dim_x blockDim"
  let ?idx = "\<lambda>bi ti. i32 (u32 (int bi * ?D + int ti))"
  let ?T = "\<lambda>bi ti. if ?idx bi ti < col then {begin + i32 (i32 (row * ?idx bi ti) + r)} else {}"
  let ?B = "\<lambda>bi. {q. \<exists>ti<nat ?D. q \<in> ?T bi ti}"
  have inner: "fold (\<lambda>ti. gpu_fill_row_float_kernel begin row col r val (int bi) ?D (int ti))
                 [0..<nat ?D] m
               = (\<lambda>q. if q \<in> ?B bi then val else m q)" for bi m
  proof (rule ext)
    fix q
    have "fold (\<lambda>ti. gpu_fill_row_float_kernel begin row col r val (int bi) ?D (int ti))
                 [0..<nat ?D] m q
          = (if \<exists>ti<nat ?D. q \<in> ?T bi ti then val else m q)"
      by (rule fold_fill_sets) (auto simp: gpu_fill_row_float_kernel_def Let_def)
    then show "fold (\<lambda>ti. gpu_fill_row_float_kernel begin row col r val (int bi) ?D (int ti))
                 [0..<nat ?D] m q = (if q \<in> ?B bi then val else m q)"
      by simp
  qed
  have "fold (\<lambda>bi m. fold (\<lambda>ti. gpu_fill_row_float_kernel begin row col r val (int bi) ?D (int ti))
                         [0..<nat ?D] m) [0..<nat ?G] mem p
        = (if \<exists>bi<nat ?G. p \<in> ?B bi then val else mem p)"
    by (rule fold_fill_sets) (rule inner)
  then have l: "launch_1D gridDim blockDim (gpu_fill_row_float_kernel begin row col r val) mem p
        = (if \<exists>bi<nat ?G. p \<in> ?B bi then val else mem p)"
    using assms(1,2,3) by (simp add: launch_1D_def)
  have id: "?idx bi ti = int bi * ?D + int ti" "0 \<le> int bi * ?D + int ti"
    "int bi * ?D + int ti < ?G * ?D" if "bi < nat ?G" "ti < nat ?D" for bi ti
  proof -
    have "int bi + 1 \<le> ?G" "int ti < ?D" using that by linarith+
    then have "(int bi + 1) * ?D \<le> ?G * ?D" using assms(2) by (intro mult_right_mono) simp_all
    then show u: "int bi * ?D + int ti < ?G * ?D" using \<open>int ti < ?D\<close>
      by (simp add: algebra_simps)
    show z: "0 \<le> int bi * ?D + int ti" using assms(2) by simp
    show "?idx bi ti = int bi * ?D + int ti" using u z assms(4) by (intro i32_u32_id) linarith+
  qed
  have "(\<exists>bi<nat ?G. p \<in> ?B bi) \<longleftrightarrow>
        (\<exists>c. 0 \<le> c \<and> c < ?G * ?D \<and> c < col \<and> p = begin + i32 (i32 (row * c) + r))"
    (is "?L \<longleftrightarrow> ?R")
  proof
    assume ?L
    then obtain bi ti where bt: "bi < nat ?G" "ti < nat ?D" "p \<in> ?T bi ti" by blast
    from bt(3) have "?idx bi ti < col" "p = begin + i32 (i32 (row * ?idx bi ti) + r)"
      by (auto split: if_splits)
    with id [OF bt(1,2)] show ?R by auto
  next
    assume ?R
    then obtain c where c: "0 \<le> c" "c < ?G * ?D" "c < col"
      "p = begin + i32 (i32 (row * c) + r)" by blast
    have D: "0 < ?D" using assms(2) by simp
    have dm: "c div ?D * ?D + c mod ?D = c" "0 \<le> c mod ?D" using D by simp_all
    have "c div ?D < ?G"
    proof (rule ccontr)
      assume "\<not> c div ?D < ?G"
      then have "?G * ?D \<le> c div ?D * ?D" using D by (intro mult_right_mono) simp_all
      with dm c(2) show False by linarith
    qed
    moreover have "0 \<le> c div ?D" using c(1) D by (simp add: pos_imp_zdiv_nonneg_iff)
    ultimately have 1: "nat (c div ?D) < nat ?G" by linarith
    have 2: "nat (c mod ?D) < nat ?D" using D by simp
    have "int (nat (c div ?D)) * ?D + int (nat (c mod ?D)) = c"
      using \<open>0 \<le> c div ?D\<close> D by simp
    with id(1) [OF 1 2] have "?idx (nat (c div ?D)) (nat (c mod ?D)) = c" by simp
    with c(3,4) have "p \<in> ?T (nat (c div ?D)) (nat (c mod ?D))" by simp
    with 1 2 show ?L by blast
  qed
  with l show ?thesis by simp
qed

lemma gpu_fill_row_float_at:
  assumes "int_matrix row col" and "- row \<le> rowIdx" "rowIdx < row"
  shows "gpu_fill_row_float begin row col rowIdx val mem p =
     (if \<exists>c. 0 \<le> c \<and> c < col
             \<and> p = begin + (row * c + (if rowIdx < 0 then rowIdx + row else rowIdx))
      then val else mem p)"
proof -
  note b = int_matrix_bounds [OF assms(1)]
  obtain gridDim blockDim where gb: "setKernelDim1D col dim3_default dim3_default = (gridDim, blockDim)"
    by (cases "setKernelDim1D col dim3_default dim3_default")
  note sh = setKernelDim1D_shape [OF b(3,4) gb]
  let ?r = "if rowIdx < 0 then rowIdx + row else rowIdx"
  have r: "0 \<le> ?r" "?r < row" using assms(2,3) by simp_all
  have 1: "(if rowIdx < 0 then i32 (rowIdx + row) else rowIdx) = ?r"
    using assms(2,3) b by (simp add: i32_id)
  have "(\<exists>c. 0 \<le> c \<and> c < dim_x gridDim * dim_x blockDim \<and> c < col
             \<and> p = begin + i32 (i32 (row * c) + ?r))
        \<longleftrightarrow> (\<exists>c. 0 \<le> c \<and> c < col \<and> p = begin + (row * c + ?r))" (is "?L \<longleftrightarrow> ?R")
  proof
    assume ?L
    then obtain c where c: "0 \<le> c" "c < col" "p = begin + i32 (i32 (row * c) + ?r)" by blast
    from int_matrix_offset [OF assms(1) c(1,2)] r
    have "i32 (i32 (row * c) + ?r) = row * c + ?r" by simp
    with c show ?R by auto
  next
    assume ?R
    then obtain c where c: "0 \<le> c" "c < col" "p = begin + (row * c + ?r)" by blast
    from int_matrix_offset [OF assms(1) c(1,2)] r
    have "i32 (i32 (row * c) + ?r) = row * c + ?r" by simp
    with c sh(5) show ?L by (intro exI [of _ c]) simp
  qed
  then show ?thesis
    unfolding gpu_fill_row_float_def gb Let_def prod.case 1
    by (simp only: launch_1D_fill_row [OF sh(1,2,3,4)])
qed


text \<open>
  C7. On a matrix whose element offsets fit \<^verbatim>\<open>int\<close>, with the index within the matrix
  (from \<open>- dimension\<close> to \<open>dimension - 1\<close>), a negative index is resolved to index +
  dimension in both fills. \<^verbatim>\<open>gpu_fill_col_float\<close> stores the value at exactly the \<open>row\<close>
  consecutive addresses of the resolved column and \<^verbatim>\<open>gpu_fill_row_float\<close> at the resolved
  row of each of the \<open>col\<close> columns; every other address keeps its value. Hence an index
  \<open>-k\<close> acts as the index \<open>dimension - k\<close>; on a 5-row matrix \<open>rowIdx = -1\<close> is
  \<open>rowIdx = 4\<close>.
\<close>

theorem fill_negative_index:
  assumes "int_matrix row col"
    and "- col \<le> colIdx" and "colIdx < col"
    and "- row \<le> rowIdx" and "rowIdx < row"
  shows "gpu_fill_col_float begin row col colIdx val mem p =
     (if begin + row * (if colIdx < 0 then colIdx + col else colIdx) \<le> p
         \<and> p < begin + row * (if colIdx < 0 then colIdx + col else colIdx) + row
      then val else mem p)
   \<and> gpu_fill_row_float begin row col rowIdx val mem p =
     (if \<exists>c. 0 \<le> c \<and> c < col
             \<and> p = begin + (row * c + (if rowIdx < 0 then rowIdx + row else rowIdx))
      then val else mem p)
   \<and> (colIdx < 0 \<longrightarrow>
        gpu_fill_col_float begin row col colIdx val mem
          = gpu_fill_col_float begin row col (colIdx + col) val mem)
   \<and> (rowIdx < 0 \<longrightarrow>
        gpu_fill_row_float begin row col rowIdx val mem
          = gpu_fill_row_float begin row col (rowIdx + row) val mem)
   \<and> gpu_fill_row_float begin 5 col (- 1) val mem = gpu_fill_row_float begin 5 col 4 val mem"
proof -
  note b = int_matrix_bounds [OF assms(1)]
  have 1: "gpu_fill_col_float begin row col colIdx val mem p =
     (if begin + row * (if colIdx < 0 then colIdx + col else colIdx) \<le> p
         \<and> p < begin + row * (if colIdx < 0 then colIdx + col else colIdx) + row
      then val else mem p)"
    by (rule gpu_fill_col_float_at [OF assms(1,2,3)])
  have 2: "gpu_fill_row_float begin row col rowIdx val mem p =
     (if \<exists>c. 0 \<le> c \<and> c < col
             \<and> p = begin + (row * c + (if rowIdx < 0 then rowIdx + row else rowIdx))
      then val else mem p)"
    by (rule gpu_fill_row_float_at [OF assms(1,4,5)])
  have 3: "colIdx < 0 \<longrightarrow>
        gpu_fill_col_float begin row col colIdx val mem
          = gpu_fill_col_float begin row col (colIdx + col) val mem"
    using assms(2) b by (simp add: gpu_fill_col_float_def i32_id)
  have 4: "rowIdx < 0 \<longrightarrow>
        gpu_fill_row_float begin row col rowIdx val mem
          = gpu_fill_row_float begin row col (rowIdx + row) val mem"
    using assms(4) b by (simp add: gpu_fill_row_float_def i32_id)
  have 5: "gpu_fill_row_float begin 5 col (- 1) val mem = gpu_fill_row_float begin 5 col 4 val mem"
    by (simp add: gpu_fill_row_float_def i32_def)
  from 1 2 3 4 5 show ?thesis by blast
qed

theorem fill_negative_index_witness:
  "int_matrix 2 3 \<and> - 3 \<le> (- 1 :: int) \<and> (- 1 :: int) < 3 \<and> - 2 \<le> (- 1 :: int) \<and> (- 1 :: int) < 2
   \<and> (- 1 :: int) < 0
   \<and> gpu_fill_col_float 0 2 3 (- 1) 7 (\<lambda>p. 0) 5 = 7
   \<and> gpu_fill_col_float 0 2 3 (- 1) 7 (\<lambda>p. 0) 3 = 0
   \<and> gpu_fill_row_float 0 2 3 (- 1) 7 (\<lambda>p. 0) 5 = 7
   \<and> gpu_fill_col_float 0 2 3 (- 1) 7 (\<lambda>p. 0) = gpu_fill_col_float 0 2 3 2 7 (\<lambda>p. 0)
   \<and> gpu_fill_row_float 0 2 3 (- 1) 7 (\<lambda>p. 0) = gpu_fill_row_float 0 2 3 1 7 (\<lambda>p. 0)"
proof -
  have m: "int_matrix 2 3" by (simp add: int_matrix_def)
  have h: "- 3 \<le> (- 1 :: int)" "(- 1 :: int) < 3" "- 2 \<le> (- 1 :: int)" "(- 1 :: int) < 2"
    by simp_all
  have n: "(- 1 :: int) < 0" by simp
  note t = fill_negative_index [OF m h, of 0 7 "\<lambda>p. 0" 5]
  note u = fill_negative_index [OF m h, of 0 7 "\<lambda>p. 0" 3]
  have a: "gpu_fill_col_float 0 2 3 (- 1) 7 (\<lambda>p. 0) 5 = 7"
    using t [THEN conjunct1] by simp
  have b: "gpu_fill_col_float 0 2 3 (- 1) 7 (\<lambda>p. 0) 3 = 0"
    using u [THEN conjunct1] by simp
  have ex: "\<exists>c::int. 0 \<le> c \<and> c < 3 \<and> 5 = 0 + (2 * c + (if (- 1 :: int) < 0 then - 1 + 2 else - 1))"
    by (intro exI [of _ 2]) simp
  have c: "gpu_fill_row_float 0 2 3 (- 1) 7 (\<lambda>p. 0) 5 = 7"
    by (simp only: t [THEN conjunct2, THEN conjunct1] ex if_True)
  have d: "gpu_fill_col_float 0 2 3 (- 1) 7 (\<lambda>p. 0) = gpu_fill_col_float 0 2 3 2 7 (\<lambda>p. 0)"
    using t [THEN conjunct2, THEN conjunct2, THEN conjunct1] by simp
  have e: "gpu_fill_row_float 0 2 3 (- 1) 7 (\<lambda>p. 0) = gpu_fill_row_float 0 2 3 1 7 (\<lambda>p. 0)"
    using t [THEN conjunct2, THEN conjunct2, THEN conjunct2, THEN conjunct1] by simp
  from m h n a b c d e show ?thesis by blast
qed

text \<open>
  Without the bound on the size the \<^verbatim>\<open>int\<close> offset wraps: the last column of a 65536 by
  65536 matrix is not what is filled.
\<close>

lemma fill_col_wraps:
  "gpu_fill_col_float 0 65536 65536 (- 1) 7 (\<lambda>p. 0) (- 65536) = 7
   \<and> gpu_fill_col_float 0 65536 65536 (- 1) 7 (\<lambda>p. 0) 4294901760 = 0"
  by (simp add: gpu_fill_col_float_def fill_n_at i32_def)

section \<open>Transposition\<close>

lemma fold_unchanged:
  assumes "\<And>x m. x \<in> set xs \<Longrightarrow> step x m p = m p"
  shows "fold step xs mem p = mem p"
  using assms by (induction xs arbitrary: mem) simp_all

lemma set_grid_2D:
  "set (grid_2D d) = {(int i, int j) | i j. i < nat (dim_x d) \<and> j < nat (dim_y d)}"
  by (auto simp: grid_2D_def)

lemma u32_le: "0 \<le> v \<Longrightarrow> u32 v \<le> v"
  by (simp add: u32_def zmod_le_nonneg_dividend)

lemma u32_nonneg: "0 \<le> u32 v"
  by (simp add: u32_def)

lemma transpose_write_other:
  assumes "\<And>x y. 0 \<le> x \<Longrightarrow> x < u32 height \<Longrightarrow> x < gy * 16 \<Longrightarrow> 0 \<le> y \<Longrightarrow> y < u32 width
             \<Longrightarrow> y < gx * 16 \<Longrightarrow> p \<noteq> out + u32 (y * u32 height + x)"
    and "0 \<le> fst bid" "fst bid < gx" "0 \<le> snd bid" "snd bid < gy"
    and "0 \<le> fst tid" "fst tid < 16" "0 \<le> snd tid" "snd tid < 16"
  shows "transpose_write out width height block (fst bid) (snd bid) tid mem p = mem p"
proof -
  let ?x = "u32 (snd bid * BLOCK_DIM + fst tid)"
  let ?y = "u32 (fst bid * BLOCK_DIM + snd tid)"
  have "?y \<le> fst bid * 16 + snd tid"
    unfolding BLOCK_DIM_def using assms(2,8) by (intro u32_le) simp
  also have "\<dots> < gx * 16" using assms(3,9) by simp
  finally have yb: "?y < gx * 16" .
  have "?x \<le> snd bid * 16 + fst tid"
    unfolding BLOCK_DIM_def using assms(4,6) by (intro u32_le) simp
  also have "\<dots> < gy * 16" using assms(5,7) by simp
  finally have xb: "?x < gy * 16" .
  show ?thesis
    using assms(1) [OF u32_nonneg _ xb u32_nonneg _ yb]
    by (auto simp: transpose_write_def Let_def)
qed

lemma gpu_transpose_float_other:
  assumes "\<And>x y. 0 \<le> x \<Longrightarrow> x < u32 col \<Longrightarrow> x < max (col sdiv 16) 1 * 16
             \<Longrightarrow> 0 \<le> y \<Longrightarrow> y < u32 row \<Longrightarrow> y < max (row sdiv 16) 1 * 16
             \<Longrightarrow> p \<noteq> out + u32 (y * u32 col + x)"
  shows "gpu_transpose_float inp row col out block0 mem p = mem p"
  unfolding gpu_transpose_float_def Let_def
proof (rule fold_unchanged)
  fix bid m
  assume "bid \<in> set (grid_2D \<lparr>dim_x = max (row sdiv BLOCK_DIM) 1,
                              dim_y = max (col sdiv BLOCK_DIM) 1, dim_z = 1\<rparr>)"
  then have b: "0 \<le> fst bid" "fst bid < max (row sdiv 16) 1"
      "0 \<le> snd bid" "snd bid < max (col sdiv 16) 1"
    by (auto simp: set_grid_2D BLOCK_DIM_def)
  show "gpu_transpose_float_kernel inp row col out block0
          \<lparr>dim_x = BLOCK_DIM, dim_y = BLOCK_DIM, dim_z = 1\<rparr> bid m p = m p"
    unfolding gpu_transpose_float_kernel_def Let_def
  proof (rule fold_unchanged)
    fix tid m'
    assume "tid \<in> set (grid_2D \<lparr>dim_x = BLOCK_DIM, dim_y = BLOCK_DIM, dim_z = 1\<rparr>)"
    then have t: "0 \<le> fst tid" "fst tid < 16" "0 \<le> snd tid" "snd tid < 16"
      by (auto simp: set_grid_2D BLOCK_DIM_def)
    show "transpose_write out row col
            (fold (transpose_read inp row col m (fst bid) (snd bid))
               (grid_2D \<lparr>dim_x = BLOCK_DIM, dim_y = BLOCK_DIM, dim_z = 1\<rparr>) block0)
            (fst bid) (snd bid) tid m' p = m' p"
      by (rule transpose_write_other [OF assms b t])
  qed
qed

lemma transpose_17_1_writes:
  assumes "p < out \<or> out + 16 \<le> p"
  shows "gpu_transpose_float inp 17 1 out block0 mem p = mem p"
proof (rule gpu_transpose_float_other)
  fix x y :: int
  assume "0 \<le> x" "x < u32 1" "0 \<le> y" "y < u32 17" "y < max (17 sdiv 16) 1 * 16"
  then have "x = 0" "y < 16" "0 \<le> y"
    by (simp_all add: u32_def signed_divide_int_def)
  then have "u32 (y * u32 1 + x) = y" by (simp add: u32_def)
  with \<open>y < 16\<close> \<open>0 \<le> y\<close> assms show "p \<noteq> out + u32 (y * u32 1 + x)" by auto
qed

lemma transpose_1_17_writes:
  assumes "p < out \<or> out + 16 \<le> p"
  shows "gpu_transpose_float inp 1 17 out block0 mem p = mem p"
proof (rule gpu_transpose_float_other)
  fix x y :: int
  assume "0 \<le> x" "x < max (17 sdiv 16) 1 * 16" "0 \<le> y" "y < u32 1"
  then have "y = 0" "x < 16" "0 \<le> x"
    by (simp_all add: u32_def signed_divide_int_def)
  then have "u32 (y * u32 17 + x) = x" by (simp add: u32_def)
  with \<open>x < 16\<close> \<open>0 \<le> x\<close> assms show "p \<noteq> out + u32 (y * u32 17 + x)" by auto
qed

lemma fold_writes_hit:
  assumes "t0 \<in> set ts" and "g t0"
    and "\<And>t. t \<in> set ts \<Longrightarrow> g t \<Longrightarrow> k t = k t0 \<Longrightarrow> v t = v t0"
  shows "fold (\<lambda>t m. if g t then m(k t := v t) else m) ts m (k t0) = v t0"
  using assms(1,3)
proof (induction ts rule: rev_induct)
  case Nil
  then show ?case by simp
next
  case (snoc t ts)
  show ?case
  proof (cases "g t \<and> k t = k t0")
    case True
    then have "v t = v t0" using snoc.prems(2) [of t] by simp
    with True show ?thesis by simp
  next
    case False
    then have "t \<noteq> t0" using assms(2) by auto
    with snoc.prems(1) have in_ts: "t0 \<in> set ts" by simp
    have "fold (\<lambda>t m. if g t then m(k t := v t) else m) ts m (k t0) = v t0"
      using snoc.IH [OF in_ts] snoc.prems(2) by simp
    with False show ?thesis by auto
  qed
qed

lemma fold_hit:
  assumes "b0 \<in> set bs"
    and "\<And>b m. b \<in> set bs \<Longrightarrow> B b m src = m src"
    and "\<And>b m. b \<in> set bs \<Longrightarrow> b \<noteq> b0 \<Longrightarrow> B b m p0 = m p0"
    and "\<And>m. B b0 m p0 = m src"
  shows "fold B bs m p0 = m src"
  using assms(1,2,3)
proof (induction bs arbitrary: m)
  case Nil
  then show ?case by simp
next
  case (Cons b bs)
  show ?case
  proof (cases "b0 \<in> set bs")
    case True
    have "fold B bs (B b m) p0 = B b m src"
      using Cons.IH [OF True] Cons.prems(2,3) by simp
    also have "\<dots> = m src" using Cons.prems(2) by simp
    finally show ?thesis by simp
  next
    case False
    with Cons.prems(1) have b: "b = b0" by simp
    have "fold B bs (B b m) p0 = B b m p0"
    proof (rule fold_unchanged)
      fix x m'
      assume "x \<in> set bs"
      with False have "x \<noteq> b0" by auto
      with \<open>x \<in> set bs\<close> show "B x m' p0 = m' p0" using Cons.prems(3) by simp
    qed
    also have "\<dots> = m src" unfolding b by (rule assms(4))
    finally show ?thesis by simp
  qed
qed

lemma transpose_read_shape:
  "transpose_read inp width height mem bx by' =
     (\<lambda>t block. if u32 (bx * 16 + fst t) < u32 width \<and> u32 (by' * 16 + snd t) < u32 height
                 then block((nat (snd t), nat (fst t)) :=
                        mem (inp + u32 (u32 (by' * 16 + snd t) * u32 width + u32 (bx * 16 + fst t))))
                 else block)"
  by (intro ext) (simp add: transpose_read_def Let_def BLOCK_DIM_def)

lemma transpose_write_shape:
  "transpose_write out width height block bx by' =
     (\<lambda>t mem. if u32 (by' * 16 + fst t) < u32 height \<and> u32 (bx * 16 + snd t) < u32 width
               then mem(out + u32 (u32 (bx * 16 + snd t) * u32 height + u32 (by' * 16 + fst t)) :=
                        block (nat (fst t), nat (snd t)))
               else mem)"
  by (intro ext) (simp add: transpose_write_def Let_def BLOCK_DIM_def)

lemma in_grid_2D:
  "(a, b) \<in> set (grid_2D d) \<longleftrightarrow> 0 \<le> a \<and> a < dim_x d \<and> 0 \<le> b \<and> b < dim_y d"
proof
  assume "(a, b) \<in> set (grid_2D d)"
  then show "0 \<le> a \<and> a < dim_x d \<and> 0 \<le> b \<and> b < dim_y d"
    by (auto simp: set_grid_2D)
next
  assume h: "0 \<le> a \<and> a < dim_x d \<and> 0 \<le> b \<and> b < dim_y d"
  then have "(a, b) = (int (nat a), int (nat b))" "nat a < nat (dim_x d)" "nat b < nat (dim_y d)"
    by auto
  then show "(a, b) \<in> set (grid_2D d)"
    unfolding set_grid_2D by blast
qed


lemma index_bound:
  fixes X Y r c :: int
  assumes "0 \<le> X" "X < r" "0 \<le> Y" "Y < c"
  shows "0 \<le> Y * r + X \<and> Y * r + X < r * c"
proof -
  have r: "0 \<le> r" using assms(1,2) by simp
  have "(Y + 1) * r \<le> c * r" using assms(4) r by (intro mult_right_mono) simp_all
  then have "Y * r + r \<le> r * c" by (simp add: algebra_simps)
  moreover have "0 \<le> Y * r" using assms(3) r by simp
  ultimately show ?thesis using assms(1,2) by linarith
qed

lemma pair_index_inj:
  fixes a a' b b' c :: int
  assumes "a * c + b = a' * c + b'" "0 \<le> b" "b < c" "0 \<le> b'" "b' < c"
  shows "a = a' \<and> b = b'"
proof -
  have c: "0 < c" using assms(2,3) by simp
  have "(a * c + b) div c = a" using assms(2,3) c by simp
  moreover have "(a' * c + b') div c = a'" using assms(4,5) c by simp
  ultimately have "a = a'" using assms(1) by simp
  with assms(1) show ?thesis by simp
qed

lemma fits_u32:
  assumes "fits row col"
  shows "u32 row = row" "u32 col = col"
proof -
  have p: "0 < row" "0 < col" "row * col < 4294967296" using assms by (simp_all add: fits_def)
  have a: "row \<le> row * col" using mult_left_mono [of 1 col row] p by simp
  have b: "col \<le> row * col" using mult_right_mono [of 1 row col] p by simp
  show "u32 row = row" by (rule u32_id) (use p a in linarith)+
  show "u32 col = col" by (rule u32_id) (use p b in linarith)+
qed

lemma fits_index:
  assumes "fits row col" "0 \<le> X" "X < row" "0 \<le> Y" "Y < col"
  shows "u32 (Y * row + X) = Y * row + X" "u32 (X * col + Y) = X * col + Y"
proof -
  from index_bound [OF assms(2,3,4,5)] assms(1) show "u32 (Y * row + X) = Y * row + X"
    by (simp add: fits_def u32_id)
  from index_bound [OF assms(4,5,2,3)] assms(1) show "u32 (X * col + Y) = X * col + Y"
    by (simp add: fits_def u32_id mult.commute)
qed

text \<open>A block index within the grid, with a thread index, stays below 2^32.\<close>

lemma grid_index_u32:
  assumes "0 < n" "n < 4294967296" "0 \<le> b" "b < max (n sdiv 16) 1" "0 \<le> t" "t < 16"
  shows "u32 (b * 16 + t) = b * 16 + t"
proof -
  have "n sdiv 16 = n div 16" using assms(1) by (simp add: sdiv_nonneg)
  then have "b < max (n div 16) 1" using assms(4) by simp
  then have "b * 16 + t < max n 16" using assms(6) by linarith
  then have "b * 16 + t < 4294967296" using assms(2) by simp
  moreover have "0 \<le> b * 16 + t" using assms(3,5) by simp
  ultimately show ?thesis by (rule u32_id [rotated])
qed


lemma fits_bounds:
  assumes "fits row col"
  shows "0 < row" "row < 4294967296" "0 < col" "col < 4294967296"
proof -
  have p: "0 < row" "0 < col" "row * col < 4294967296" using assms by (simp_all add: fits_def)
  have a: "row \<le> row * col" using mult_left_mono [of 1 col row] p by simp
  have b: "col \<le> row * col" using mult_right_mono [of 1 row col] p by simp
  show "0 < row" "row < 4294967296" "0 < col" "col < 4294967296" using p a b by linarith+
qed

lemma in_block_16:
  "t \<in> set (grid_2D \<lparr>dim_x = BLOCK_DIM, dim_y = BLOCK_DIM, dim_z = 1\<rparr>)
   \<longleftrightarrow> 0 \<le> fst t \<and> fst t < 16 \<and> 0 \<le> snd t \<and> snd t < 16"
  using in_grid_2D [of "fst t" "snd t" "\<lparr>dim_x = BLOCK_DIM, dim_y = BLOCK_DIM, dim_z = 1\<rparr>"]
  by (simp add: BLOCK_DIM_def)

lemma tile_after_read:
  assumes f: "fits row col"
    and bxs: "0 \<le> bx" "bx < max (row sdiv 16) 1"
    and bys: "0 \<le> by'" "by' < max (col sdiv 16) 1"
    and t: "0 \<le> tx" "tx < 16" "0 \<le> ty" "ty < 16"
    and g: "bx * 16 + tx < row" "by' * 16 + ty < col"
  shows "fold (transpose_read inp row col mem bx by')
           (grid_2D \<lparr>dim_x = BLOCK_DIM, dim_y = BLOCK_DIM, dim_z = 1\<rparr>) block0 (nat ty, nat tx)
         = mem (inp + ((by' * 16 + ty) * row + (bx * 16 + tx)))"
proof -
  let ?g = "\<lambda>t. u32 (bx * 16 + fst t) < u32 row \<and> u32 (by' * 16 + snd t) < u32 col"
  let ?k = "\<lambda>t. (nat (snd t), nat (fst t))"
  let ?v = "\<lambda>t. mem (inp + u32 (u32 (by' * 16 + snd t) * u32 row + u32 (bx * 16 + fst t)))"
  note fb = fits_bounds [OF f]
  have ux: "u32 (bx * 16 + tx) = bx * 16 + tx"
    by (rule grid_index_u32 [OF fb(1,2) bxs t(1,2)])
  have uy: "u32 (by' * 16 + ty) = by' * 16 + ty"
    by (rule grid_index_u32 [OF fb(3,4) bys t(3,4)])
  have x0: "0 \<le> bx * 16 + tx" and y0: "0 \<le> by' * 16 + ty" using bxs(1) bys(1) t(1,3) by simp_all
  have "fold (\<lambda>t m. if ?g t then m(?k t := ?v t) else m)
          (grid_2D \<lparr>dim_x = BLOCK_DIM, dim_y = BLOCK_DIM, dim_z = 1\<rparr>) block0 (?k (tx, ty))
        = ?v (tx, ty)"
  proof (rule fold_writes_hit)
    show "(tx, ty) \<in> set (grid_2D \<lparr>dim_x = BLOCK_DIM, dim_y = BLOCK_DIM, dim_z = 1\<rparr>)"
      using t by (simp add: in_block_16)
    show "?g (tx, ty)" using g by (simp add: ux uy fits_u32 [OF f])
  next
    fix t'
    assume m: "t' \<in> set (grid_2D \<lparr>dim_x = BLOCK_DIM, dim_y = BLOCK_DIM, dim_z = 1\<rparr>)"
      and k: "?k t' = ?k (tx, ty)"
    from m have "0 \<le> fst t'" "0 \<le> snd t'" by (simp_all add: in_block_16)
    with k t have "fst t' = tx" "snd t' = ty" by auto
    then show "?v t' = ?v (tx, ty)" by simp
  qed
  then show ?thesis
    by (simp add: transpose_read_shape ux uy fits_u32 [OF f] fits_index [OF f x0 g(1) y0 g(2)])
qed


lemma kernel_block_other:
  assumes "\<And>tx ty. 0 \<le> tx \<Longrightarrow> tx < 16 \<Longrightarrow> 0 \<le> ty \<Longrightarrow> ty < 16
             \<Longrightarrow> u32 (by' * 16 + tx) < u32 col \<Longrightarrow> u32 (bx * 16 + ty) < u32 row
             \<Longrightarrow> p \<noteq> out + u32 (u32 (bx * 16 + ty) * u32 col + u32 (by' * 16 + tx))"
  shows "gpu_transpose_float_kernel inp row col out block0
           \<lparr>dim_x = BLOCK_DIM, dim_y = BLOCK_DIM, dim_z = 1\<rparr> (bx, by') m p = m p"
  unfolding gpu_transpose_float_kernel_def Let_def fst_conv snd_conv
proof (rule fold_unchanged)
  fix t m'
  assume "t \<in> set (grid_2D \<lparr>dim_x = BLOCK_DIM, dim_y = BLOCK_DIM, dim_z = 1\<rparr>)"
  then have t: "0 \<le> fst t" "fst t < 16" "0 \<le> snd t" "snd t < 16"
    by (simp_all add: in_block_16)
  show "transpose_write out row col
          (fold (transpose_read inp row col m bx by')
             (grid_2D \<lparr>dim_x = BLOCK_DIM, dim_y = BLOCK_DIM, dim_z = 1\<rparr>) block0)
          bx by' t m' p = m' p"
    using assms [OF t] by (auto simp: transpose_write_shape)
qed

lemma kernel_block_hit:
  assumes f: "fits row col"
    and bxs: "0 \<le> bx" "bx < max (row sdiv 16) 1"
    and bys: "0 \<le> by'" "by' < max (col sdiv 16) 1"
    and t: "0 \<le> tx" "tx < 16" "0 \<le> ty" "ty < 16"
    and g: "bx * 16 + ty < row" "by' * 16 + tx < col"
  shows "gpu_transpose_float_kernel inp row col out block0
           \<lparr>dim_x = BLOCK_DIM, dim_y = BLOCK_DIM, dim_z = 1\<rparr> (bx, by') m
           (out + ((bx * 16 + ty) * col + (by' * 16 + tx)))
         = m (inp + ((by' * 16 + tx) * row + (bx * 16 + ty)))"
proof -
  let ?grid = "grid_2D \<lparr>dim_x = BLOCK_DIM, dim_y = BLOCK_DIM, dim_z = 1\<rparr>"
  let ?block = "fold (transpose_read inp row col m bx by') ?grid block0"
  let ?g = "\<lambda>t. u32 (by' * 16 + fst t) < u32 col \<and> u32 (bx * 16 + snd t) < u32 row"
  let ?k = "\<lambda>t. out + u32 (u32 (bx * 16 + snd t) * u32 col + u32 (by' * 16 + fst t))"
  let ?v = "\<lambda>t. ?block (nat (fst t), nat (snd t))"
  note fb = fits_bounds [OF f]
  note fu = fits_u32 [OF f]
  have ux: "u32 (bx * 16 + b) = bx * 16 + b" if "0 \<le> b" "b < 16" for b
    by (rule grid_index_u32 [OF fb(1,2) bxs that])
  have uy: "u32 (by' * 16 + a) = by' * 16 + a" if "0 \<le> a" "a < 16" for a
    by (rule grid_index_u32 [OF fb(3,4) bys that])
  have idx: "u32 ((bx * 16 + b) * col + (by' * 16 + a)) = (bx * 16 + b) * col + (by' * 16 + a)"
    if "0 \<le> a" "0 \<le> b" "by' * 16 + a < col" "bx * 16 + b < row" for a b
  proof -
    have "0 \<le> bx * 16 + b" "0 \<le> by' * 16 + a" using that bxs(1) bys(1) by simp_all
    from fits_index(2) [OF f this(1) that(4) this(2) that(3)] show ?thesis .
  qed
  have k0: "?k (tx, ty) = out + ((bx * 16 + ty) * col + (by' * 16 + tx))"
    using t g by (simp add: ux uy fu idx)
  have hit: "fold (\<lambda>t m. if ?g t then m(?k t := ?v t) else m) ?grid m (?k (tx, ty)) = ?v (tx, ty)"
  proof (rule fold_writes_hit)
    show "(tx, ty) \<in> set ?grid" using t by (simp add: in_block_16)
    show "?g (tx, ty)" using g t by (simp add: ux uy fu)
  next
    fix t'
    assume m: "t' \<in> set ?grid" and gt: "?g t'" and k: "?k t' = ?k (tx, ty)"
    from m have r: "0 \<le> fst t'" "fst t' < 16" "0 \<le> snd t'" "snd t' < 16"
      by (simp_all add: in_block_16)
    from gt r have gt': "by' * 16 + fst t' < col" "bx * 16 + snd t' < row"
      by (simp_all add: ux uy fu)
    have "?k t' = out + ((bx * 16 + snd t') * col + (by' * 16 + fst t'))"
      using r gt' by (simp add: ux uy fu idx)
    with k k0 have "(bx * 16 + snd t') * col + (by' * 16 + fst t')
                    = (bx * 16 + ty) * col + (by' * 16 + tx)" by simp
    from pair_index_inj [OF this _ gt'(1) _ g(2)] r(1) t(1) bys(1)
    have "snd t' = ty" "fst t' = tx" by simp_all
    then show "?v t' = ?v (tx, ty)" by simp
  qed
  have vv: "?v (tx, ty) = m (inp + ((by' * 16 + tx) * row + (bx * 16 + ty)))"
    using tile_after_read [OF f bxs bys t(3,4) t(1,2) g] by simp
  have ker: "gpu_transpose_float_kernel inp row col out block0
               \<lparr>dim_x = BLOCK_DIM, dim_y = BLOCK_DIM, dim_z = 1\<rparr> (bx, by') m
             = fold (\<lambda>t m. if ?g t then m(?k t := ?v t) else m) ?grid m"
    unfolding gpu_transpose_float_kernel_def Let_def fst_conv snd_conv transpose_write_shape ..
  show ?thesis
    by (simp only: ker k0 [symmetric] hit vv)
qed


lemma kernel_block_other_fits:
  assumes f: "fits row col"
    and bxs: "0 \<le> bx" "bx < max (row sdiv 16) 1"
    and bys: "0 \<le> by'" "by' < max (col sdiv 16) 1"
    and ne: "\<And>tx ty. 0 \<le> tx \<Longrightarrow> tx < 16 \<Longrightarrow> 0 \<le> ty \<Longrightarrow> ty < 16
             \<Longrightarrow> by' * 16 + tx < col \<Longrightarrow> bx * 16 + ty < row
             \<Longrightarrow> p \<noteq> out + ((bx * 16 + ty) * col + (by' * 16 + tx))"
  shows "gpu_transpose_float_kernel inp row col out block0
           \<lparr>dim_x = BLOCK_DIM, dim_y = BLOCK_DIM, dim_z = 1\<rparr> (bx, by') m p = m p"
proof (rule kernel_block_other)
  fix tx ty :: int
  assume t: "0 \<le> tx" "tx < 16" "0 \<le> ty" "ty < 16"
    and gu: "u32 (by' * 16 + tx) < u32 col" "u32 (bx * 16 + ty) < u32 row"
  note fb = fits_bounds [OF f]
  note fu = fits_u32 [OF f]
  have ux: "u32 (bx * 16 + ty) = bx * 16 + ty"
    by (rule grid_index_u32 [OF fb(1,2) bxs t(3,4)])
  have uy: "u32 (by' * 16 + tx) = by' * 16 + tx"
    by (rule grid_index_u32 [OF fb(3,4) bys t(1,2)])
  from gu have g: "by' * 16 + tx < col" "bx * 16 + ty < row" by (simp_all add: ux uy fu)
  have "0 \<le> bx * 16 + ty" "0 \<le> by' * 16 + tx" using t bxs(1) bys(1) by simp_all
  from fits_index(2) [OF f this(1) g(2) this(2) g(1)]
  have "u32 (u32 (bx * 16 + ty) * u32 col + u32 (by' * 16 + tx))
        = (bx * 16 + ty) * col + (by' * 16 + tx)"
    by (simp add: ux uy fu)
  with ne [OF t g] show "p \<noteq> out + u32 (u32 (bx * 16 + ty) * u32 col + u32 (by' * 16 + tx))"
    by simp
qed

lemma gpu_transpose_float_hit:
  assumes f: "fits row col"
    and d: "inp + row * col \<le> out \<or> out + row * col \<le> inp"
    and x: "0 \<le> x" "x < row" "x < max (row sdiv 16) 1 * 16"
    and y: "0 \<le> y" "y < col" "y < max (col sdiv 16) 1 * 16"
  shows "gpu_transpose_float inp row col out block0 mem (out + (x * col + y))
         = mem (inp + (y * row + x))"
proof -
  let ?G = "grid_2D \<lparr>dim_x = max (row sdiv BLOCK_DIM) 1, dim_y = max (col sdiv BLOCK_DIM) 1,
                      dim_z = 1\<rparr>"
  let ?B = "gpu_transpose_float_kernel inp row col out block0
              \<lparr>dim_x = BLOCK_DIM, dim_y = BLOCK_DIM, dim_z = 1\<rparr>"
  have inG: "b \<in> set ?G \<longleftrightarrow> 0 \<le> fst b \<and> fst b < max (row sdiv 16) 1
                               \<and> 0 \<le> snd b \<and> snd b < max (col sdiv 16) 1" for b
    using in_grid_2D [of "fst b" "snd b" "\<lparr>dim_x = max (row sdiv BLOCK_DIM) 1,
        dim_y = max (col sdiv BLOCK_DIM) 1, dim_z = 1\<rparr>"]
    by (simp add: BLOCK_DIM_def)
  have src: "0 \<le> y * row + x" "y * row + x < row * col"
    using index_bound [OF x(1,2) y(1,2)] by simp_all
  have "fold ?B ?G mem (out + (x * col + y)) = mem (inp + (y * row + x))"
  proof (rule fold_hit [where ?b0.0 = "(x div 16, y div 16)"])
    show "(x div 16, y div 16) \<in> set ?G"
      using x(1,3) y(1,3) by (simp add: inG) linarith
  next
    fix b m
    assume "b \<in> set ?G"
    then have bb: "0 \<le> fst b" "fst b < max (row sdiv 16) 1"
      "0 \<le> snd b" "snd b < max (col sdiv 16) 1" by (simp_all add: inG)
    have "?B (fst b, snd b) m (inp + (y * row + x)) = m (inp + (y * row + x))"
    proof (rule kernel_block_other_fits [OF f bb])
      fix tx ty :: int
      assume t: "0 \<le> tx" "0 \<le> ty" and g: "snd b * 16 + tx < col" "fst b * 16 + ty < row"
      have "0 \<le> fst b * 16 + ty" "0 \<le> snd b * 16 + tx" using t bb(1,3) by simp_all
      from index_bound [OF this(2) g(1) this(1) g(2)]
      have "0 \<le> (fst b * 16 + ty) * col + (snd b * 16 + tx)"
        "(fst b * 16 + ty) * col + (snd b * 16 + tx) < row * col"
        by (simp_all add: mult.commute)
      with src d show "inp + (y * row + x) \<noteq> out + ((fst b * 16 + ty) * col + (snd b * 16 + tx))"
        by linarith
    qed
    then show "?B b m (inp + (y * row + x)) = m (inp + (y * row + x))" by simp
  next
    fix b m
    assume "b \<in> set ?G" and nb: "b \<noteq> (x div 16, y div 16)"
    then have bb: "0 \<le> fst b" "fst b < max (row sdiv 16) 1"
      "0 \<le> snd b" "snd b < max (col sdiv 16) 1" by (simp_all add: inG)
    have "?B (fst b, snd b) m (out + (x * col + y)) = m (out + (x * col + y))"
    proof (rule kernel_block_other_fits [OF f bb])
      fix tx ty :: int
      assume t: "0 \<le> tx" "tx < 16" "0 \<le> ty" "ty < 16"
        and g: "snd b * 16 + tx < col" "fst b * 16 + ty < row"
      show "out + (x * col + y) \<noteq> out + ((fst b * 16 + ty) * col + (snd b * 16 + tx))"
      proof
        assume "out + (x * col + y) = out + ((fst b * 16 + ty) * col + (snd b * 16 + tx))"
        then have "x * col + y = (fst b * 16 + ty) * col + (snd b * 16 + tx)" by simp
        from pair_index_inj [OF this y(1,2) _ g(1)] t(1) bb(3)
        have "x = fst b * 16 + ty" "y = snd b * 16 + tx" by simp_all
        then have "x div 16 = fst b" "y div 16 = snd b" using t by simp_all
        with nb show False by (cases b) simp
      qed
    qed
    then show "?B b m (out + (x * col + y)) = m (out + (x * col + y))" by simp
  next
    fix m
    have bx: "0 \<le> x div 16" "x div 16 < max (row sdiv 16) 1" using x(1,3) by simp_all
    have by': "0 \<le> y div 16" "y div 16 < max (col sdiv 16) 1" using y(1,3) by simp_all
    have t: "0 \<le> y mod 16" "y mod 16 < 16" "0 \<le> x mod 16" "x mod 16 < 16" by simp_all
    have e: "x div 16 * 16 + x mod 16 = x" "y div 16 * 16 + y mod 16 = y" by simp_all
    from kernel_block_hit [OF f bx by' t, unfolded e, OF x(2) y(2)]
    show "?B (x div 16, y div 16) m (out + (x * col + y)) = m (inp + (y * row + x))" .
  qed
  then show ?thesis by (simp add: gpu_transpose_float_def Let_def)
qed


lemma grid_covers:
  fixes x n :: int
  assumes "0 \<le> x" "x < n" "n \<le> 16 \<or> 16 dvd n"
  shows "x < max (n sdiv 16) 1 * 16"
proof -
  have n: "0 < n" using assms(1,2) by simp
  have s: "n sdiv 16 = n div 16" using n by (simp add: sdiv_nonneg)
  from assms(3) show ?thesis
  proof
    assume "n \<le> 16"
    with assms(2) show ?thesis by (simp add: max_def)
  next
    assume "16 dvd n"
    then have "n div 16 * 16 = n" by simp
    with assms(2) n show ?thesis unfolding s by (simp add: max_def)
  qed
qed

lemma fits_commute: "fits row col \<Longrightarrow> fits col row"
  by (simp add: fits_def mult.commute)

text \<open>
  When both dimensions are at most 16 or multiples of 16 the grid covers the matrix,
  and transposing twice gives the matrix back.
\<close>

lemma transpose_round_trip_aligned:
  assumes f: "fits row col"
    and al: "row \<le> 16 \<or> 16 dvd row" "col \<le> 16 \<or> 16 dvd col"
    and d1: "inp + row * col \<le> out \<or> out + row * col \<le> inp"
    and d2: "out + row * col \<le> back \<or> back + row * col \<le> out"
    and x: "0 \<le> x" "x < row" and y: "0 \<le> y" "y < col"
  shows "gpu_transpose_float out col row back block1
           (gpu_transpose_float inp row col out block0 mem) (back + (y * row + x))
         = mem (inp + (y * row + x))"
proof -
  note cx = grid_covers [OF x al(1)]
  note cy = grid_covers [OF y al(2)]
  have d2': "out + col * row \<le> back \<or> back + col * row \<le> out"
    using d2 by (simp add: mult.commute)
  have "gpu_transpose_float out col row back block1
           (gpu_transpose_float inp row col out block0 mem) (back + (y * row + x))
        = gpu_transpose_float inp row col out block0 mem (out + (x * col + y))"
    by (rule gpu_transpose_float_hit [OF fits_commute [OF f] d2' y cy x cx])
  also have "\<dots> = mem (inp + (y * row + x))"
    by (rule gpu_transpose_float_hit [OF f d1 x cx y cy])
  finally show ?thesis .
qed

text \<open>
  The scenario of the specification: the matrix with rows (1, 2) and (3, 4), stored
  column-major as 1, 3, 2, 4, is transposed to 1, 2, 3, 4.
\<close>

lemma transpose_2_by_2:
  "map (gpu_transpose_float 0 2 2 10 block0
          (\<lambda>p. if p = 0 then 1 else if p = 1 then 3 else if p = 2 then 2 else if p = 3 then 4 else 0))
     [10, 11, 12, 13] = [1, 2, 3, 4]"
proof -
  let ?M = "\<lambda>p::int. if p = 0 then 1 else if p = 1 then 3 else if p = 2 then 2
                      else if p = 3 then 4 else (0::real)"
  have f: "fits 2 2" by (simp add: fits_def)
  have s: "(0::int) < max (2 sdiv 16) 1 * 16" "(1::int) < max (2 sdiv 16) 1 * 16"
    by (simp_all add: signed_divide_int_def)
  have h: "gpu_transpose_float 0 2 2 10 block0 ?M (10 + (x * 2 + y)) = ?M (0 + (y * 2 + x))"
    if "0 \<le> x" "x < 2" "0 \<le> y" "y < 2" for x y
    using that by (intro gpu_transpose_float_hit [OF f]) (simp_all add: signed_divide_int_def)
  from h [of 0 0] h [of 0 1] h [of 1 0] h [of 1 1] show ?thesis by simp
qed

text \<open>
  C6. A matrix with 17 rows and 1 column holding 1, ..., 17 at addresses 0, ..., 16 is
  transposed into a zeroed buffer at 100 and that buffer is transposed again into a
  zeroed buffer at 200. The grid has \<open>max (17 div 16) 1 = 1\<close> block along the dimension
  of 17, which covers the indices 0 to 15 only: the element of index 15 is transposed,
  the element of index 16 is never written, by either call, so the round trip ends
  with 0 where the matrix has 17.
\<close>

theorem transpose_round_trip_17_by_1:
  "gpu_transpose_float 100 1 17 200 (\<lambda>c. 0)
     (gpu_transpose_float 0 17 1 100 (\<lambda>c. 0)
        (\<lambda>p. if 0 \<le> p \<and> p < 17 then real_of_int p + 1 else 0)) (200 + 16) = 0
   \<and> (\<lambda>p. if 0 \<le> p \<and> p < 17 then real_of_int p + 1 else 0) (0 + 16) = 17
   \<and> gpu_transpose_float 0 17 1 100 (\<lambda>c. 0)
        (\<lambda>p. if 0 \<le> p \<and> p < 17 then real_of_int p + 1 else 0) (100 + 16) = 0
   \<and> gpu_transpose_float 0 17 1 100 (\<lambda>c. 0)
        (\<lambda>p. if 0 \<le> p \<and> p < 17 then real_of_int p + 1 else 0) (100 + 15) = 16"
proof -
  let ?M = "\<lambda>p::int. if 0 \<le> p \<and> p < 17 then real_of_int p + 1 else 0"
  have f: "fits 17 1" by (simp add: fits_def)
  have s: "(15::int) < max (17 sdiv 16) 1 * 16" "(0::int) < max (1 sdiv 16) 1 * 16"
    by (simp_all add: signed_divide_int_def)
  have "gpu_transpose_float 0 17 1 100 (\<lambda>c. 0) ?M (100 + (15 * 1 + 0)) = ?M (0 + (0 * 17 + 15))"
    by (rule gpu_transpose_float_hit [OF f _ _ _ s(1) _ _ s(2)]) simp_all
  then have "gpu_transpose_float 0 17 1 100 (\<lambda>c. 0) ?M (100 + 15) = 16" by simp
  then show ?thesis
    by (simp add: transpose_1_17_writes transpose_17_1_writes)
qed

end
